theory Spec2Isabelle
  imports Complex_Main "HOL-Library.Multiset" "HOL-Library.Log_Nat"
begin

section \<open>JavaScript numbers\<close>

text \<open>
  Indices and identifiers, which the program only ever produces through \<open>Math.floor\<close>,
  \<open>Math.ceil\<close>, \<open>parseInt\<close> or array lengths, are modelled as unbounded integers.
  Pixel values (\<open>clientY\<close>, \<open>scrollTop\<close>, rectangle edges, item heights) are finite
  JavaScript numbers, that is IEEE-754 binary64 values; each is modelled by the rational
  it denotes, \<open>-0\<close> and \<open>0\<close> being the same value.

  The row of the pointer in a list is \<open>Math.floor((clientY - rect.top) / itemHeight)\<close>.
  There the rounding of \<open>-\<close> and of \<open>/\<close> can move the quotient across an integer, so
  these two operations are modelled with their rounding: \<open>double_round\<close> takes the exact
  result to the nearest number with a significand of 53 bits, a tie to the one whose
  significand is even. \<open>binade x\<close> is the exponent \<open>e\<close> with \<open>2^e \<le> |x| < 2^(e+1)\<close>;
  the numbers of that binade are the multiples of \<open>2^(e-52)\<close>, and below \<open>2^-1022\<close> the
  subnormal numbers are the multiples of \<open>2^-1074\<close>. A result of magnitude \<open>2^1024\<close> or
  more, which the program holds as \<open>Infinity\<close>, is outside the model, as are \<open>NaN\<close>
  and infinite inputs. The item height is never \<open>0\<close>: both constructors replace a
  falsy \<open>options.itemHeight\<close> by 50.

  The other differences, sums and quotients of pixel values (the offsets and the
  position of the dragged clone, the distances to the edges of the scroll container,
  the range of the virtual scroller) are kept unrounded.
\<close>

definition binade :: "rat \<Rightarrow> int" where
  "binade x = (if 1 \<le> \<bar>x\<bar> then bitlen \<lfloor>\<bar>x\<bar>\<rfloor> - 1 else - bitlen (\<lceil>1 / \<bar>x\<bar>\<rceil> - 1))"

text \<open>The nearest integer, a tie going to the even one.\<close>

definition round_even :: "rat \<Rightarrow> int" where
  "round_even q =
     (let n = \<lfloor>q\<rfloor>; r = q - of_int n
      in if r < 1 / 2 then n else if 1 / 2 < r then n + 1 else if even n then n else n + 1)"

text \<open>The exponent of the unit in the last place of the numbers around \<open>x\<close>.\<close>

definition ulp_exponent :: "rat \<Rightarrow> int" where
  "ulp_exponent x = max (binade x) (- 1022) - 52"

definition double_round :: "rat \<Rightarrow> rat" where
  "double_round x =
     (if x = 0 then 0
      else of_int (round_even (x / 2 powi ulp_exponent x)) * 2 powi ulp_exponent x)"

text \<open>\<open>a - b\<close> and \<open>a / b\<close> on JavaScript numbers, for \<open>b\<close> other than \<open>0\<close>.\<close>

definition double_minus :: "rat \<Rightarrow> rat \<Rightarrow> rat" where
  "double_minus a b = double_round (a - b)"

definition double_divide :: "rat \<Rightarrow> rat \<Rightarrow> rat" where
  "double_divide a b = double_round (a / b)"

section \<open>The board model of KanbanBoard\<close>

text \<open>
  An item of the board is the object \<open>{ id, text }\<close>; a column is
  \<open>{ id, title, items }\<close>; \<open>this.data.columns\<close> is the list of columns.
  The arrays of the model hold item objects only, so the filters
  \<open>items.filter(item => item !== null && item !== undefined)\<close> of \<open>removeItem\<close> and
  \<open>addItem\<close> are the identity on them and \<open>JSON.parse(JSON.stringify(itemData))\<close>
  yields an equal value.
\<close>

record item =
  item_id :: int
  item_text :: string

record column =
  col_id :: int
  col_title :: string
  col_items :: "item list"

type_synonym board = "column list"

text \<open>\<open>this.data.columns.find(col => col.id === columnId)\<close>: the first column with that id.\<close>

definition find_column :: "board \<Rightarrow> int \<Rightarrow> column option" where
  "find_column cols columnId = List.find (\<lambda>col. col_id col = columnId) cols"

text \<open>
  The column found is an object reference: assigning to \<open>column.items\<close> changes that
  column, the first one with the id, in place and leaves every other column alone.
\<close>

fun update_column :: "int \<Rightarrow> (item list \<Rightarrow> item list) \<Rightarrow> board \<Rightarrow> board" where
  "update_column columnId f [] = []"
| "update_column columnId f (col # cols) =
     (if col_id col = columnId then col\<lparr>col_items := f (col_items col)\<rparr> # cols
      else col # update_column columnId f cols)"

text \<open>\<open>items.splice(index, 1)\<close> and \<open>items.splice(validIndex, 0, item)\<close> for an index in range.\<close>

definition splice_remove :: "nat \<Rightarrow> 'a list \<Rightarrow> 'a list" where
  "splice_remove i xs = take i xs @ drop (Suc i) xs"

definition splice_insert :: "nat \<Rightarrow> 'a \<Rightarrow> 'a list \<Rightarrow> 'a list" where
  "splice_insert i x xs = take i xs @ x # drop i xs"

text \<open>\<open>KanbanBoard.findItemById(columnId, itemId)\<close>; \<open>None\<close> is the \<open>null\<close>/\<open>undefined\<close> result.\<close>

definition findItemById :: "board \<Rightarrow> int \<Rightarrow> int \<Rightarrow> item option" where
  "findItemById cols columnId itemId =
     (case find_column cols columnId of
        None \<Rightarrow> None
      | Some column \<Rightarrow> List.find (\<lambda>it. item_id it = itemId) (col_items column))"

text \<open>
  \<open>KanbanBoard.removeItem(columnId, index)\<close>, on the data of the board. After the
  change \<open>removeItem\<close> and \<open>addItem\<close> hand the column's items to the column's scroller
  (\<open>updateItems\<close>) and touch CSS classes and placeholders; the scroller reads the items
  and never writes the board. It is modelled on its own below.
\<close>

definition removeItem :: "board \<Rightarrow> int \<Rightarrow> int \<Rightarrow> board" where
  "removeItem cols columnId index =
     (case find_column cols columnId of
        None \<Rightarrow> cols
      | Some column \<Rightarrow>
          if index < 0 \<or> index \<ge> int (length (col_items column)) then cols
          else update_column columnId (splice_remove (nat index)) cols)"

text \<open>\<open>KanbanBoard.addItem(columnId, index, item)\<close>, on the data of the board.\<close>

definition addItem :: "board \<Rightarrow> int \<Rightarrow> int \<Rightarrow> item \<Rightarrow> board" where
  "addItem cols columnId index it =
     (case find_column cols columnId of
        None \<Rightarrow> cols
      | Some column \<Rightarrow>
          let validIndex = min (max 0 index) (int (length (col_items column)))
          in update_column columnId (splice_insert (nat validIndex) it) cols)"

section \<open>The DOM as the drag manager sees it\<close>

text \<open>
  The drag manager reads the document through a few queries only. Each element is a
  snapshot of what those queries answer: \<open>el_node\<close> and \<open>dl_node\<close> stand for the
  identity of the DOM node (elements are compared with \<open>===\<close>), the other fields for
  its \<open>dataset\<close> and its bounding rectangle.

  A droppable list (\<open>.droppable-list\<close>, \<open>data-droppable="true"\<close>) carries the id of
  its column (set by \<open>initializeBoard\<close>), the top of its bounding rectangle, the nodes
  of its \<open>.draggable-item\<close> children in document order, and the top and bottom of the
  rectangle of its closest \<open>.virtual-scroll-container\<close>, if any.
\<close>

record droplist =
  dl_node :: nat
  dl_columnId :: int
  dl_top :: rat
  dl_items :: "nat list"
  dl_container :: "(rat \<times> rat) option"

text \<open>The object \<open>{ id, index, text }\<close> that \<open>renderItem\<close> hands to \<open>makeDraggable\<close>.\<close>

record drag_data =
  dd_id :: int
  dd_index :: int
  dd_text :: string

text \<open>
  A rendered item (\<open>.draggable-item\<close>): \<open>dataset.itemIndex\<close>, \<open>dataset.dragData\<close>,
  \<open>dataset.sourceColumnId\<close> (absent until \<open>handleDragStart\<close> writes it; \<open>parseInt\<close> of
  an absent value is \<open>NaN\<close>, modelled as \<open>None\<close>), the result of
  \<open>closest('[data-droppable="true"]')\<close> and the left and top of its rectangle.
\<close>

record elem =
  el_node :: nat
  el_itemIndex :: int
  el_dragData :: drag_data
  el_sourceColumnId :: "int option"
  el_closestList :: "droplist option"
  el_left :: rat
  el_top :: rat

text \<open>
  A pointer event, with the answers the document gives when the handlers of the event
  ask: \<open>ev_dropList\<close> is \<open>document.elementsFromPoint(clientX, clientY).find(el =>
  el.hasAttribute('data-droppable'))\<close> (\<open>None\<close> for \<open>undefined\<close>) and
  \<open>ev_draggedInBody\<close> is \<open>document.body.contains(this.draggedItem)\<close>.
\<close>

record pointer_event =
  ev_button :: int
  ev_clientX :: rat
  ev_clientY :: rat
  ev_movementX :: rat
  ev_currentTarget :: elem
  ev_dropList :: "droplist option"
  ev_draggedInBody :: bool

section \<open>KanbanBoard: the commit of a drop\<close>

text \<open>The object the drag manager passes to \<open>options.onDrop\<close>.\<close>

record drop_info =
  drop_item :: elem
  drop_sourceList :: "droplist option"
  drop_targetList :: droplist
  drop_data :: drag_data
  drop_position :: rat
  drop_targetIndex :: int

text \<open>The object reported to \<open>options.onItemMove\<close>.\<close>

record move_report =
  mv_item :: item
  mv_sourceColumnId :: int
  mv_targetColumnId :: int
  mv_sourceIndex :: int
  mv_targetIndex :: int

text \<open>
  How \<open>handleDrop\<close> ends: with \<open>console.error('Could not find item data for dropped
  item')\<close> and an early return, or with the call of \<open>onItemMove\<close>.
\<close>

datatype drop_outcome = CouldNotFindItem | ItemMoved move_report

record kanban =
  kb_data :: board
  kb_ITEM_HEIGHT :: rat

text \<open>The constructor: \<open>this.data = options.data\<close>, \<open>this.ITEM_HEIGHT = options.itemHeight || 50\<close>.\<close>

definition new_KanbanBoard :: "board \<Rightarrow> rat \<Rightarrow> kanban" where
  "new_KanbanBoard cols h = \<lparr>kb_data = cols, kb_ITEM_HEIGHT = (if h = 0 then 50 else h)\<rparr>"

text \<open>\<open>KanbanBoard.handleDragStart\<close> writes the source column id into the item's dataset.\<close>

definition handleDragStart :: "elem \<Rightarrow> droplist \<Rightarrow> elem" where
  "handleDragStart it sl = it\<lparr>el_sourceColumnId := Some (dl_columnId sl)\<rparr>"

text \<open>
  \<open>KanbanBoard.handleDrop\<close>. A source column id that is \<open>NaN\<close> equals no column id, so
  \<open>findItemById\<close> returns \<open>null\<close> for it. \<open>data.targetIndex || Math.floor(data.position /
  this.ITEM_HEIGHT)\<close> takes the second operand when the first is \<open>0\<close>. The animation
  work after the two calls (timers that toggle CSS classes and reposition rendered
  items) does not touch \<open>this.data\<close> and is left out.
\<close>

definition handleDrop :: "kanban \<Rightarrow> drop_info \<Rightarrow> kanban \<times> drop_outcome" where
  "handleDrop kb d =
     (let targetColumnId = dl_columnId (drop_targetList d);
          itemIndex = el_itemIndex (drop_item d)
      in case el_sourceColumnId (drop_item d) of
           None \<Rightarrow> (kb, CouldNotFindItem)
         | Some sourceColumnId \<Rightarrow>
            (case findItemById (kb_data kb) sourceColumnId (dd_id (drop_data d)) of
               None \<Rightarrow> (kb, CouldNotFindItem)
             | Some itemData \<Rightarrow>
                 let targetIndex =
                       (if drop_targetIndex d \<noteq> 0 then drop_targetIndex d
                        else \<lfloor>double_divide (drop_position d) (kb_ITEM_HEIGHT kb)\<rfloor>);
                     itemCopy = itemData;
                     cols1 = removeItem (kb_data kb) sourceColumnId itemIndex;
                     cols2 = addItem cols1 targetColumnId targetIndex itemCopy
                 in (kb\<lparr>kb_data := cols2\<rparr>,
                     ItemMoved \<lparr>mv_item = itemCopy, mv_sourceColumnId = sourceColumnId,
                       mv_targetColumnId = targetColumnId, mv_sourceIndex = itemIndex,
                       mv_targetIndex = targetIndex\<rparr>)))"

section \<open>DragManager\<close>

text \<open>
  The drop placeholder: whether it is shown (\<open>style.display = 'block'\<close>), the node of
  the list it has been inserted into, and the item node it stands before (\<open>None\<close> when
  it was appended). The clone that follows the pointer: its \<open>left\<close>, \<open>top\<close> and the
  rotation of its transform.
\<close>

record placeholder =
  ph_display :: bool
  ph_parent :: "nat option"
  ph_before :: "nat option"

record clone =
  cl_left :: rat
  cl_top :: rat
  cl_rotation :: rat

text \<open>
  What \<open>this.currentDropTarget\<close> holds: \<open>null\<close> (from the constructor and from
  \<open>cleanupDrag\<close>), \<open>undefined\<close> (from a search that found no droppable list under the
  pointer) or a droppable list. The first two differ under \<open>!==\<close>.
\<close>

datatype drop_target = Null | Undefined | Element droplist

text \<open>The result of \<open>elementsFromPoint(...).find(...)\<close> as such a value.\<close>

fun found :: "droplist option \<Rightarrow> drop_target" where
  "found None = Undefined"
| "found (Some dl) = Element dl"

text \<open>\<open>a === b\<close> on such values: elements are equal when they are the same node.\<close>

fun same_target :: "drop_target \<Rightarrow> drop_target \<Rightarrow> bool" where
  "same_target Null Null = True"
| "same_target Undefined Undefined = True"
| "same_target (Element a) (Element b) = (dl_node a = dl_node b)"
| "same_target _ _ = False"

record drag_manager =
  draggedItem :: "elem option"
  sourceList :: "droplist option"
  offsetX :: rat
  offsetY :: rat
  currentDropTarget :: drop_target
  placeholder :: "placeholder option"
  placeholderIndex :: int
  clone :: "clone option"
  dragActive :: bool
  itemHeight :: rat

text \<open>The constructor; \<open>this.itemHeight = options.itemHeight || 50\<close>.\<close>

definition new_DragManager :: "rat \<Rightarrow> drag_manager" where
  "new_DragManager h =
     \<lparr>draggedItem = None, sourceList = None, offsetX = 0, offsetY = 0,
      currentDropTarget = Null, placeholder = None, placeholderIndex = - 1,
      clone = None, dragActive = False, itemHeight = (if h = 0 then 50 else h)\<rparr>"

text \<open>\<open>array[i]\<close> for an integer \<open>i\<close>: \<open>undefined\<close> (\<open>None\<close>) outside the array.\<close>

definition js_nth :: "'a list \<Rightarrow> int \<Rightarrow> 'a option" where
  "js_nth xs i = (if 0 \<le> i \<and> i < int (length xs) then Some (xs ! nat i) else None)"

definition createPlaceholder :: "drag_manager \<Rightarrow> drag_manager" where
  "createPlaceholder dm =
     dm\<lparr>placeholder := Some \<lparr>ph_display = False, ph_parent = None, ph_before = None\<rparr>\<rparr>"

definition removePlaceholder :: "drag_manager \<Rightarrow> drag_manager" where
  "removePlaceholder dm = dm\<lparr>placeholder := None, placeholderIndex := - 1\<rparr>"

definition createDragClone :: "elem \<Rightarrow> clone" where
  "createDragClone element = \<lparr>cl_left = 0, cl_top = 0, cl_rotation = 0\<rparr>"

definition updateClonePosition :: "pointer_event \<Rightarrow> drag_manager \<Rightarrow> drag_manager" where
  "updateClonePosition e dm =
     (case clone dm of
        None \<Rightarrow> dm
      | Some c \<Rightarrow>
          let x = ev_clientX e - offsetX dm;
              y = ev_clientY e - offsetY dm;
              rotation = ev_movementX e * (1 / 2);
              clampedRotation = max (- 3) (min 3 rotation)
          in dm\<lparr>clone := Some \<lparr>cl_left = x, cl_top = y, cl_rotation = clampedRotation\<rparr>\<rparr>)"

text \<open>
  \<open>cleanupDrag\<close>: the placeholder and the clone go, the session fields are reset. The
  restyling of rendered items and the timers that remove CSS classes are presentation
  only.
\<close>

definition cleanupDrag :: "drag_manager \<Rightarrow> drag_manager" where
  "cleanupDrag dm =
     (removePlaceholder dm)\<lparr>clone := None, dragActive := False, draggedItem := None,
        sourceList := None, currentDropTarget := Null\<rparr>"

text \<open>
  \<open>pointerDownHandler\<close>, with \<open>options.onDragStart\<close> bound to
  \<open>KanbanBoard.handleDragStart\<close> as the board's constructor does. The handler tests
  the button and nothing else before it writes \<open>dragActive\<close>, \<open>draggedItem\<close> and
  \<open>sourceList\<close>. Its body runs in a \<open>try\<close> block whose handler calls
  \<open>cleanupDrag\<close>; none of the calls in it is taken to throw. Highlight classes and
  inline styles are presentation only.
\<close>

definition pointerDownHandler :: "pointer_event \<Rightarrow> drag_manager \<Rightarrow> drag_manager" where
  "pointerDownHandler e dm =
     (if ev_button e \<noteq> 0 then dm
      else
        let dm1 = dm\<lparr>dragActive := True, draggedItem := Some (ev_currentTarget e),
                    sourceList := el_closestList (ev_currentTarget e)\<rparr>
        in case sourceList dm1 of
             None \<Rightarrow> dm1
           | Some sl \<Rightarrow>
               let dm2 = dm1\<lparr>offsetX := ev_clientX e - el_left (ev_currentTarget e),
                             offsetY := ev_clientY e - el_top (ev_currentTarget e)\<rparr>;
                   dm3 = dm2\<lparr>clone := Some (createDragClone (ev_currentTarget e))\<rparr>;
                   dm4 = updateClonePosition e dm3;
                   dm5 = createPlaceholder dm4
               in dm5\<lparr>draggedItem := Some (handleDragStart (ev_currentTarget e) sl)\<rparr>)"

text \<open>
  \<open>updatePlaceholderPosition(e, dropList)\<close>. The index is
  \<open>Math.floor(relativeY / this.itemHeight)\<close>; the rendered items of the list, without
  the dragged one, decide which node the placeholder goes before.
  \<open>animateItemsForPlaceholder\<close> toggles CSS classes only.
\<close>

definition updatePlaceholderPosition ::
  "pointer_event \<Rightarrow> droplist \<Rightarrow> drag_manager \<Rightarrow> drag_manager" where
  "updatePlaceholderPosition e dropList dm =
     (if \<not> dragActive dm \<or> draggedItem dm = None then dm
      else
        let dm0 = (if placeholder dm = None then createPlaceholder dm else dm);
            relativeY = double_minus (ev_clientY e) (dl_top dropList);
            newIndex = \<lfloor>double_divide relativeY (itemHeight dm0)\<rfloor>
        in if newIndex \<noteq> placeholderIndex dm0 then
             let dm1 = createPlaceholder (removePlaceholder dm0);
                 visibleItems =
                   filter (\<lambda>n. Some n \<noteq> map_option el_node (draggedItem dm1)) (dl_items dropList);
                 insertBefore =
                   (if newIndex < int (length visibleItems) then js_nth visibleItems newIndex
                    else None)
             in dm1\<lparr>placeholder := Some \<lparr>ph_display = True, ph_parent = Some (dl_node dropList),
                                          ph_before = insertBefore\<rparr>,
                    placeholderIndex := newIndex\<rparr>
           else dm0)"

section \<open>The board and its drag manager under pointer events\<close>

text \<open>
  The board owns one drag manager, built with \<open>onDragStart\<close> and \<open>onDrop\<close> only
  (no \<open>onDragMove\<close>, no \<open>onDragEnd\<close>). \<open>w_frames\<close> holds the pointer events whose
  \<open>requestAnimationFrame\<close> callback is still pending, \<open>w_outcomes\<close> what the drops
  reported, and \<open>w_autoScroll\<close> the changes of \<open>container.scrollTop\<close> asked for near
  the edges of a scroll container (column id and amount).
\<close>

record world =
  w_board :: kanban
  w_drag :: drag_manager
  w_frames :: "pointer_event list"
  w_outcomes :: "drop_outcome list"
  w_autoScroll :: "(int \<times> rat) list"

definition new_world :: "board \<Rightarrow> rat \<Rightarrow> world" where
  "new_world cols h =
     (let kb = new_KanbanBoard cols h
      in \<lparr>w_board = kb, w_drag = new_DragManager (kb_ITEM_HEIGHT kb), w_frames = [],
          w_outcomes = [], w_autoScroll = []\<rparr>)"

text \<open>\<open>pointerMoveHandler\<close>, up to the request of an animation frame.\<close>

definition pointerMoveHandler :: "pointer_event \<Rightarrow> world \<Rightarrow> world" where
  "pointerMoveHandler e w =
     (let dm = w_drag w
      in if \<not> dragActive dm \<or> draggedItem dm = None then w
         else
           let dm1 = updateClonePosition e dm
           in if \<not> ev_draggedInBody e then w\<lparr>w_drag := cleanupDrag dm1\<rparr>
              else w\<lparr>w_drag := dm1, w_frames := w_frames w @ [e]\<rparr>)"

text \<open>
  The callback \<open>pointerMoveHandler\<close> hands to \<open>requestAnimationFrame\<close>. When the list
  under the pointer is the node already held as \<open>currentDropTarget\<close> the reference
  stays and only its snapshot is refreshed.
\<close>

definition pointerMoveFrame :: "pointer_event \<Rightarrow> world \<Rightarrow> world" where
  "pointerMoveFrame e w =
     (let dm = w_drag w
      in if \<not> dragActive dm \<or> draggedItem dm = None then w
         else
           let dropList = ev_dropList e;
               dm1 =
                 (if \<not> same_target (found dropList) (currentDropTarget dm)
                  then
                    let dmA = removePlaceholder dm;
                        dmB = (if dropList \<noteq> None then createPlaceholder dmA else dmA)
                    in dmB\<lparr>currentDropTarget := found dropList\<rparr>
                  else dm\<lparr>currentDropTarget := found dropList\<rparr>);
               dm2 =
                 (case currentDropTarget dm1 of
                    Element target \<Rightarrow> updatePlaceholderPosition e target dm1
                  | _ \<Rightarrow> dm1);
               scroll =
                 (case dropList of
                    None \<Rightarrow> []
                  | Some dl \<Rightarrow>
                     (case dl_container dl of
                        None \<Rightarrow> []
                      | Some (containerTop, containerBottom) \<Rightarrow>
                          if ev_clientY e < containerTop + 50 then [(dl_columnId dl, - 10)]
                          else if ev_clientY e > containerBottom - 50 then [(dl_columnId dl, 10)]
                          else []))
           in w\<lparr>w_drag := dm2, w_autoScroll := w_autoScroll w @ scroll\<rparr>)"

text \<open>\<open>pointerUpHandler\<close>, with \<open>options.onDrop\<close> bound to \<open>KanbanBoard.handleDrop\<close>.\<close>

definition pointerUpHandler :: "pointer_event \<Rightarrow> world \<Rightarrow> world" where
  "pointerUpHandler e w =
     (let dm = w_drag w
      in case draggedItem dm of
           None \<Rightarrow> w
         | Some dragged \<Rightarrow>
             if \<not> dragActive dm then w
             else
               let dm1 = dm\<lparr>dragActive := False\<rparr>
               in case ev_dropList e of
                    None \<Rightarrow> w\<lparr>w_drag := cleanupDrag dm1\<rparr>
                  | Some dropList \<Rightarrow>
                      let dragData = el_dragData dragged;
                          mouseY = ev_clientY e;
                          relativeY = double_minus mouseY (dl_top dropList);
                          targetIndex = \<lfloor>double_divide relativeY (itemHeight dm1)\<rfloor>;
                          dropped = handleDrop (w_board w)
                            \<lparr>drop_item = dragged, drop_sourceList = sourceList dm1,
                             drop_targetList = dropList, drop_data = dragData,
                             drop_position = relativeY, drop_targetIndex = targetIndex\<rparr>
                      in w\<lparr>w_board := fst dropped,
                           w_outcomes := w_outcomes w @ [snd dropped],
                           w_drag := cleanupDrag dm1\<rparr>)"

datatype event =
    PointerDown pointer_event
  | PointerMove pointer_event
  | AnimationFrame
  | PointerUp pointer_event

text \<open>One event of the host loop; an animation frame runs every pending callback.\<close>

fun step :: "world \<Rightarrow> event \<Rightarrow> world" where
  "step w (PointerDown e) = w\<lparr>w_drag := pointerDownHandler e (w_drag w)\<rparr>"
| "step w (PointerMove e) = pointerMoveHandler e w"
| "step w AnimationFrame = fold pointerMoveFrame (w_frames w) (w\<lparr>w_frames := []\<rparr>)"
| "step w (PointerUp e) = pointerUpHandler e w"

definition run :: "world \<Rightarrow> event list \<Rightarrow> world" where
  "run w evs = foldl step w evs"

section \<open>VirtualScroller\<close>

text \<open>
  The scroll container as the scroller reads it: \<open>scrollTop\<close>, \<open>clientHeight\<close> and the
  height of its bounding rectangle. A handle is a rendered child of \<open>this.list\<close>:
  its \<open>data-item-index\<close>, the id of its item and the offset of its
  \<open>translateY\<close> transform.
\<close>

record container =
  ct_scrollTop :: rat
  ct_clientHeight :: rat
  ct_rectHeight :: rat

record handle =
  hd_index :: int
  hd_itemId :: int
  hd_translateY :: rat

text \<open>
  \<open>vs_renderItemFn\<close> is the rendering collaborator; \<open>None\<close> stands for a call that
  throws (the scroller catches and logs it). \<open>vs_visibleItems\<close> is the JavaScript
  \<open>Set\<close> of materialized indices, in insertion order.
\<close>

record scroller =
  vs_container :: container
  vs_items :: "item list"
  vs_renderItemFn :: "item \<Rightarrow> int \<Rightarrow> rat \<Rightarrow> handle option"
  vs_ITEM_HEIGHT :: rat
  vs_BUFFER_ITEMS :: int
  vs_visibleItems :: "int list"
  vs_list :: "handle list"

text \<open>\<open>this.container.clientHeight || this.container.getBoundingClientRect().height\<close>\<close>

definition containerHeight :: "scroller \<Rightarrow> rat" where
  "containerHeight s =
     (if ct_clientHeight (vs_container s) \<noteq> 0 then ct_clientHeight (vs_container s)
      else ct_rectHeight (vs_container s))"

definition visibleItemCount :: "scroller \<Rightarrow> int" where
  "visibleItemCount s = \<lceil>containerHeight s / vs_ITEM_HEIGHT s\<rceil>"

definition effectiveBuffer :: "scroller \<Rightarrow> int" where
  "effectiveBuffer s = max (vs_BUFFER_ITEMS s) (visibleItemCount s)"

definition startIndex :: "scroller \<Rightarrow> int" where
  "startIndex s =
     max 0 (\<lfloor>ct_scrollTop (vs_container s) / vs_ITEM_HEIGHT s\<rfloor> - effectiveBuffer s)"

definition endIndex :: "scroller \<Rightarrow> int" where
  "endIndex s =
     min (int (length (vs_items s)))
       (\<lceil>(ct_scrollTop (vs_container s) + containerHeight s) / vs_ITEM_HEIGHT s\<rceil>
          + effectiveBuffer s)"

text \<open>
  What one call of \<open>renderVisibleItems\<close> works on: the set of materialized indices and
  the children of the list, together with the indices whose handle the call released
  and the indices it rendered.
\<close>

record pass =
  ps_visible :: "int list"
  ps_list :: "handle list"
  ps_released :: "int list"
  ps_acquired :: "int list"

text \<open>
  \<open>this.list.querySelector('[data-item-index="index"]')\<close> followed by \<open>remove\<close>: the
  first handle with the index goes. (A handle that carries an animation class is
  removed by a timer 300 ms later instead.)
\<close>

fun remove_handle :: "int \<Rightarrow> handle list \<Rightarrow> handle list" where
  "remove_handle index [] = []"
| "remove_handle index (h # hs) =
     (if hd_index h = index then hs else h # remove_handle index hs)"

text \<open>
  The loop over \<open>Array.from(this.visibleItems)\<close>: an index outside the new range loses
  its handle and leaves the set, an index inside is kept as it is.
\<close>

definition release_index :: "int \<Rightarrow> int \<Rightarrow> int \<Rightarrow> pass \<Rightarrow> pass" where
  "release_index startIdx endIdx index p =
     (if index < startIdx \<or> index \<ge> endIdx
      then p\<lparr>ps_list := remove_handle index (ps_list p),
             ps_visible := removeAll index (ps_visible p),
             ps_released := ps_released p @ [index]\<rparr>
      else p)"

fun remove_loop :: "int \<Rightarrow> int \<Rightarrow> int list \<Rightarrow> pass \<Rightarrow> pass" where
  "remove_loop startIdx endIdx [] p = p"
| "remove_loop startIdx endIdx (index # rest) p =
     remove_loop startIdx endIdx rest (release_index startIdx endIdx index p)"

text \<open>
  The loop \<open>for (let i = startIndex; i < endIndex; i++)\<close>, given the indices it runs
  through: an index that is not materialized and has an item is rendered, unless the
  rendering function throws. The rendered handles are collected in a fragment that is
  appended to the list after the loop, which puts them behind the children already
  there, in order.
\<close>

definition render_index :: "scroller \<Rightarrow> int \<Rightarrow> pass \<Rightarrow> pass" where
  "render_index s i p =
     (if i \<notin> set (ps_visible p) then
        (case js_nth (vs_items s) i of
           None \<Rightarrow> p
         | Some it \<Rightarrow>
            (case vs_renderItemFn s it i (vs_ITEM_HEIGHT s) of
               None \<Rightarrow> p
             | Some h \<Rightarrow>
                 p\<lparr>ps_list := ps_list p @ [h\<lparr>hd_translateY := of_int i * vs_ITEM_HEIGHT s\<rparr>],
                   ps_visible := ps_visible p @ [i],
                   ps_acquired := ps_acquired p @ [i]\<rparr>))
      else p)"

fun add_loop :: "scroller \<Rightarrow> int list \<Rightarrow> pass \<Rightarrow> pass" where
  "add_loop s [] p = p"
| "add_loop s (i # rest) p = add_loop s rest (render_index s i p)"

text \<open>\<open>_positionAllItems\<close>: every child is put at \<open>itemIndex * ITEM_HEIGHT\<close>.\<close>

definition positionAllItems :: "scroller \<Rightarrow> handle list \<Rightarrow> handle list" where
  "positionAllItems s hs =
     map (\<lambda>h. h\<lparr>hd_translateY := of_int (hd_index h) * vs_ITEM_HEIGHT s\<rparr>) hs"

definition renderVisibleItems :: "scroller \<Rightarrow> pass" where
  "renderVisibleItems s =
     (let p0 = \<lparr>ps_visible = vs_visibleItems s, ps_list = vs_list s,
                ps_released = [], ps_acquired = []\<rparr>;
          p1 = remove_loop (startIndex s) (endIndex s) (vs_visibleItems s) p0;
          p2 = add_loop s [startIndex s..endIndex s - 1] p1
      in p2\<lparr>ps_list := positionAllItems s (ps_list p2)\<rparr>)"

text \<open>
  The visible range as the specification words it, for comparison with \<open>startIndex\<close>
  and \<open>endIndex\<close>: \<open>rawStart = floor(scrollOffset / itemHeight)\<close>, \<open>rawVisibleCount =
  ceil(viewportHeight / itemHeight)\<close>, effective buffer \<open>max(bufferCount,
  rawVisibleCount)\<close>, \<open>startIndex = max(0, rawStart - effectiveBuffer)\<close>, \<open>endIndex =
  min(itemCount, ceil((scrollOffset + viewportHeight) / itemHeight) + effectiveBuffer)\<close>.
\<close>

definition spec_computeVisibleRange :: "int \<Rightarrow> rat \<Rightarrow> rat \<Rightarrow> rat \<Rightarrow> int \<Rightarrow> int \<times> int" where
  "spec_computeVisibleRange itemCount scrollOffset viewportHeight itemHeight' bufferCount =
     (let rawStart = \<lfloor>scrollOffset / itemHeight'\<rfloor>;
          rawVisibleCount = \<lceil>viewportHeight / itemHeight'\<rceil>;
          effectiveBuffer' = max bufferCount rawVisibleCount
      in (max 0 (rawStart - effectiveBuffer'),
          min itemCount (\<lceil>(scrollOffset + viewportHeight) / itemHeight'\<rceil> + effectiveBuffer')))"

text \<open>
  \<open>KanbanBoard.renderItem\<close>, the rendering function the board gives its scrollers (it
  clones the item template, which the page provides, and so returns a handle for every
  item), and the scroller's constructor (\<open>bufferItems\<close> defaults to 5; the board passes
  none).
\<close>

definition renderItem :: "item \<Rightarrow> int \<Rightarrow> rat \<Rightarrow> handle option" where
  "renderItem it index h =
     Some \<lparr>hd_index = index, hd_itemId = item_id it, hd_translateY = of_int index * h\<rparr>"

definition new_VirtualScroller ::
  "container \<Rightarrow> item list \<Rightarrow> (item \<Rightarrow> int \<Rightarrow> rat \<Rightarrow> handle option) \<Rightarrow> rat \<Rightarrow> scroller" where
  "new_VirtualScroller c its renderItemFn h =
     \<lparr>vs_container = c, vs_items = its, vs_renderItemFn = renderItemFn, vs_ITEM_HEIGHT = h,
      vs_BUFFER_ITEMS = 5, vs_visibleItems = [], vs_list = []\<rparr>"

section \<open>Notions used to state the properties\<close>

text \<open>All items of the board, column after column.\<close>

definition all_items :: "board \<Rightarrow> item list" where
  "all_items cols = concat (map col_items cols)"

text \<open>
  The index can be materialized: the scroller holds an item at it and the rendering
  function returns a handle for it.
\<close>

definition renders :: "scroller \<Rightarrow> int \<Rightarrow> bool" where
  "renders s i =
     (case js_nth (vs_items s) i of
        None \<Rightarrow> False
      | Some it \<Rightarrow> vs_renderItemFn s it i (vs_ITEM_HEIGHT s) \<noteq> None)"

text \<open>
  The rendered item agrees with the board: it sits in the droppable list of a column of
  the board, and at its \<open>data-item-index\<close> that column holds the item with the id of
  its drag data. This is how \<open>renderItem\<close> makes an element from \<open>items[i]\<close>.
\<close>

definition in_sync :: "board \<Rightarrow> elem \<Rightarrow> bool" where
  "in_sync cols el =
     (case el_closestList el of
        None \<Rightarrow> False
      | Some sl \<Rightarrow>
         (case find_column cols (dl_columnId sl) of
            None \<Rightarrow> False
          | Some c \<Rightarrow>
              0 \<le> el_itemIndex el \<and> el_itemIndex el < int (length (col_items c)) \<and>
              item_id (col_items c ! nat (el_itemIndex el)) = dd_id (el_dragData el)))"

text \<open>
  The document answers an event consistently with the board: the item pressed agrees
  with the board, and a droppable list under a released pointer is the list of a column
  of the board. A sequence of events is consistent when each event is, in the state it
  arrives in.
\<close>

fun event_ok :: "world \<Rightarrow> event \<Rightarrow> bool" where
  "event_ok w (PointerDown e) = in_sync (kb_data (w_board w)) (ev_currentTarget e)"
| "event_ok w (PointerUp e) =
     (case ev_dropList e of
        None \<Rightarrow> True
      | Some dl \<Rightarrow> find_column (kb_data (w_board w)) (dl_columnId dl) \<noteq> None)"
| "event_ok w _ = True"

fun run_ok :: "world \<Rightarrow> event list \<Rightarrow> bool" where
  "run_ok w [] = True"
| "run_ok w (ev # evs) = (event_ok w ev \<and> run_ok (step w ev) evs)"

text \<open>
  The invariant of the states reached this way: every id occurs once on the board, and
  the item of an open session agrees with the board and carries the id of the column of
  its list as source column.
\<close>

definition session_ok :: "world \<Rightarrow> bool" where
  "session_ok w =
     (distinct (map item_id (all_items (kb_data (w_board w)))) \<and>
      (case draggedItem (w_drag w) of
         None \<Rightarrow> True
       | Some el \<Rightarrow>
           dragActive (w_drag w) \<longrightarrow>
             in_sync (kb_data (w_board w)) el \<and>
             el_sourceColumnId el = map_option dl_columnId (el_closestList el)))"

text \<open>An event that is not a pointer release over a droppable list.\<close>

fun no_drop_target :: "event \<Rightarrow> bool" where
  "no_drop_target (PointerUp e) = (ev_dropList e = None)"
| "no_drop_target _ = True"

text \<open>
  Concrete data for the scenarios: the list \<open>["A","B","C","D"]\<close> as the only column of
  a board, the same list beside an empty column, the two droppable lists (the first
  with its top edge at \<open>t\<close>, the second 100 pixels high as the style sheet's
  \<open>min-height\<close> makes an empty list), the rendered items "B", "C" and "D", and a
  primary-button pointer event at height \<open>y\<close>.
\<close>

definition listABCD :: "item list" where
  "listABCD = [\<lparr>item_id = 1, item_text = ''A''\<rparr>, \<lparr>item_id = 2, item_text = ''B''\<rparr>,
               \<lparr>item_id = 3, item_text = ''C''\<rparr>, \<lparr>item_id = 4, item_text = ''D''\<rparr>]"

definition board_ABCD :: board where
  "board_ABCD = [\<lparr>col_id = 0, col_title = ''To Do'', col_items = listABCD\<rparr>]"

definition board_two :: board where
  "board_two = [\<lparr>col_id = 0, col_title = ''To Do'', col_items = listABCD\<rparr>,
                \<lparr>col_id = 1, col_title = ''Done'', col_items = []\<rparr>]"

definition list_todo :: "rat \<Rightarrow> droplist" where
  "list_todo t = \<lparr>dl_node = 100, dl_columnId = 0, dl_top = t, dl_items = [1, 2, 3, 4],
                  dl_container = Some (t, t + 400)\<rparr>"

definition list_done :: droplist where
  "list_done = \<lparr>dl_node = 101, dl_columnId = 1, dl_top = 0, dl_items = [],
                dl_container = Some (0, 400)\<rparr>"

definition elem_B :: elem where
  "elem_B = \<lparr>el_node = 2, el_itemIndex = 1,
             el_dragData = \<lparr>dd_id = 2, dd_index = 1, dd_text = ''B''\<rparr>,
             el_sourceColumnId = None, el_closestList = Some (list_todo 0),
             el_left = 4, el_top = 50\<rparr>"

definition elem_C :: elem where
  "elem_C = \<lparr>el_node = 3, el_itemIndex = 2,
             el_dragData = \<lparr>dd_id = 3, dd_index = 2, dd_text = ''C''\<rparr>,
             el_sourceColumnId = None, el_closestList = Some (list_todo 0),
             el_left = 4, el_top = 100\<rparr>"

definition elem_D :: elem where
  "elem_D = \<lparr>el_node = 4, el_itemIndex = 3,
             el_dragData = \<lparr>dd_id = 4, dd_index = 3, dd_text = ''D''\<rparr>,
             el_sourceColumnId = None, el_closestList = Some (list_todo 0),
             el_left = 4, el_top = 150\<rparr>"

definition pointer_at :: "rat \<Rightarrow> elem \<Rightarrow> droplist option \<Rightarrow> pointer_event" where
  "pointer_at y target dropList =
     \<lparr>ev_button = 0, ev_clientX = 10, ev_clientY = y, ev_movementX = 0,
      ev_currentTarget = target, ev_dropList = dropList, ev_draggedInBody = True\<rparr>"

text \<open>
  A board of the two columns at the default item height, and the drop of "B" on the
  empty list at relative height 75, as \<open>pointerUpHandler\<close> hands it over.
\<close>

definition kanban_two :: kanban where
  "kanban_two = new_KanbanBoard board_two 50"

definition drop_B_on_done :: drop_info where
  "drop_B_on_done =
     \<lparr>drop_item = handleDragStart elem_B (list_todo 0), drop_sourceList = Some (list_todo 0),
      drop_targetList = list_done, drop_data = el_dragData elem_B,
      drop_position = 75, drop_targetIndex = 1\<rparr>"

text \<open>
  Scrollers of a container 100 pixels high, scrolled to \<open>st\<close>, at item height 50: one
  over the list \<open>["A","B","C","D"]\<close>, one over no items.
\<close>

definition scroller_ABCD :: "rat \<Rightarrow> scroller" where
  "scroller_ABCD st = new_VirtualScroller
     \<lparr>ct_scrollTop = st, ct_clientHeight = 100, ct_rectHeight = 100\<rparr> listABCD renderItem 50"

definition scroller_empty :: "rat \<Rightarrow> scroller" where
  "scroller_empty st = new_VirtualScroller
     \<lparr>ct_scrollTop = st, ct_clientHeight = 100, ct_rectHeight = 100\<rparr> [] renderItem 50"

text \<open>
  A scroller over forty items, scrolled to \<open>st\<close>, with \<open>prev\<close> as the indices
  materialized so far.
\<close>

definition scroller_long :: "rat \<Rightarrow> int list \<Rightarrow> scroller" where
  "scroller_long st prev =
     (new_VirtualScroller \<lparr>ct_scrollTop = st, ct_clientHeight = 100, ct_rectHeight = 100\<rparr>
        (map (\<lambda>n. \<lparr>item_id = int n, item_text = ''Task''\<rparr>) [0..<40]) renderItem 50)
     \<lparr>vs_visibleItems := prev\<rparr>"

section \<open>Facts about the board operations\<close>

lemmas demo_defs = kanban_two_def drop_B_on_done_def new_KanbanBoard_def board_two_def
  listABCD_def handleDragStart_def elem_B_def list_todo_def list_done_def all_items_def
  find_column_def

lemma find_column_split:
  "find_column cols k = Some c \<Longrightarrow>
   \<exists>pre post. cols = pre @ c # post \<and> (\<forall>x\<in>set pre. col_id x \<noteq> k) \<and> col_id c = k \<and>
     (\<forall>f. update_column k f cols = pre @ c\<lparr>col_items := f (col_items c)\<rparr> # post)"
proof (induction cols)
  case Nil
  then show ?case by (simp add: find_column_def)
next
  case (Cons a cols)
  show ?case
  proof (cases "col_id a = k")
    case True
    with Cons.prems have "a = c" by (simp add: find_column_def)
    with True show ?thesis by (intro exI[of _ "[]"] exI[of _ cols]) simp
  next
    case False
    with Cons.prems have "find_column cols k = Some c" by (simp add: find_column_def)
    from Cons.IH[OF this] obtain pre post where
      *: "cols = pre @ c # post" "\<forall>x\<in>set pre. col_id x \<noteq> k" "col_id c = k"
         "\<forall>f. update_column k f cols = pre @ c\<lparr>col_items := f (col_items c)\<rparr> # post"
      by blast
    show ?thesis
      using * False by (intro exI[of _ "a # pre"] exI[of _ post]) simp
  qed
qed

lemma find_column_update:
  "find_column (update_column k f cols) k' =
     (if k' = k then map_option (\<lambda>c. c\<lparr>col_items := f (col_items c)\<rparr>) (find_column cols k)
      else find_column cols k')"
  by (induction cols) (auto simp: find_column_def)

lemma mset_all_items_update:
  assumes "find_column cols k = Some c"
  shows "mset (all_items (update_column k f cols)) + mset (col_items c) =
         mset (all_items cols) + mset (f (col_items c))"
proof -
  from find_column_split[OF assms] obtain pre post where
    "cols = pre @ c # post" "\<forall>f. update_column k f cols = pre @ c\<lparr>col_items := f (col_items c)\<rparr> # post"
    by blast
  then show ?thesis by (simp add: all_items_def)
qed

lemma mset_splice_remove:
  assumes "i < length xs"
  shows "mset (splice_remove i xs) + {#xs ! i#} = mset xs"
proof -
  have "mset (take i xs @ xs ! i # drop (Suc i) xs) = mset xs"
    by (rule arg_cong[where f = mset]) (rule id_take_nth_drop[OF assms, symmetric])
  then show ?thesis by (simp add: splice_remove_def)
qed

lemma mset_splice_insert: "mset (splice_insert i x xs) = add_mset x (mset xs)"
proof -
  have "mset (take i xs) + mset (drop i xs) = mset xs"
    by (metis append_take_drop_id mset_append)
  then show ?thesis by (simp add: splice_insert_def)
qed

lemma find_distinct_nth:
  "distinct (map f xs) \<Longrightarrow> i < length xs \<Longrightarrow> List.find (\<lambda>x. f x = f (xs ! i)) xs = Some (xs ! i)"
proof (induction xs arbitrary: i)
  case Nil then show ?case by simp
next
  case (Cons a xs)
  show ?case
  proof (cases i)
    case 0 then show ?thesis by simp
  next
    case (Suc j)
    with Cons.prems have j: "j < length xs" and d: "distinct (map f xs)" and n: "f a \<notin> f ` set xs" by auto
    from j n have "f a \<noteq> f (xs ! j)" by (metis imageI nth_mem)
    with Cons.IH[OF d j] Suc show ?thesis by simp
  qed
qed


lemma find_absent:
  assumes "k \<notin> f ` set xs"
  shows "List.find (\<lambda>it. f it = k) xs = None"
  using assms by (induction xs) auto

lemma distinct_column_ids:
  assumes "distinct (map item_id (all_items cols))" "find_column cols k = Some c"
  shows "distinct (map item_id (col_items c))"
proof -
  from find_column_split[OF assms(2)] obtain pre post where "cols = pre @ c # post" by blast
  with assms(1) show ?thesis by (simp add: all_items_def)
qed

lemma removed_id_gone:
  assumes "distinct (map f xs)" "i < length xs"
  shows "f (xs ! i) \<notin> f ` set (splice_remove i xs)"
proof -
  have "distinct (map f (take i xs @ xs ! i # drop (Suc i) xs))"
    using assms(1) id_take_nth_drop[OF assms(2)] by simp
  then show ?thesis by (auto simp: splice_remove_def)
qed

lemma length_splice_remove: "i < length xs \<Longrightarrow> length (splice_remove i xs) + 1 = length xs"
  by (simp add: splice_remove_def)

lemma length_splice_insert: "length (splice_insert i x xs) = length xs + 1"
  by (simp add: splice_insert_def)

lemma set_splice_insert: "x \<in> set (splice_insert i x xs)"
  by (simp add: splice_insert_def)

lemma handleDrop_commit:
  assumes ids: "distinct (map item_id (all_items (kb_data kb)))"
      and src: "el_sourceColumnId (drop_item d) = Some src"
      and scol: "find_column (kb_data kb) src = Some scol"
      and idx: "0 \<le> el_itemIndex (drop_item d)"
               "el_itemIndex (drop_item d) < int (length (col_items scol))"
      and sync: "item_id (col_items scol ! nat (el_itemIndex (drop_item d))) = dd_id (drop_data d)"
      and tcol: "find_column (kb_data kb) (dl_columnId (drop_targetList d)) = Some tcol"
  shows "\<exists>tc. find_column (update_column src (splice_remove (nat (el_itemIndex (drop_item d))))
                  (kb_data kb)) (dl_columnId (drop_targetList d)) = Some tc \<and>
           kb_data (fst (handleDrop kb d)) =
             update_column (dl_columnId (drop_targetList d))
               (splice_insert
                  (nat (min (max 0 (if drop_targetIndex d \<noteq> 0 then drop_targetIndex d
                                    else \<lfloor>double_divide (drop_position d) (kb_ITEM_HEIGHT kb)\<rfloor>))
                            (int (length (col_items tc)))))
                  (col_items scol ! nat (el_itemIndex (drop_item d))))
               (update_column src (splice_remove (nat (el_itemIndex (drop_item d)))) (kb_data kb))"
proof -
  let ?i = "nat (el_itemIndex (drop_item d))"
  let ?it = "col_items scol ! ?i"
  have i: "?i < length (col_items scol)" using idx by simp
  have "List.find (\<lambda>x. item_id x = item_id ?it) (col_items scol) = Some ?it"
    by (rule find_distinct_nth[OF distinct_column_ids[OF ids scol] i])
  then have f: "findItemById (kb_data kb) src (dd_id (drop_data d)) = Some ?it"
    using scol sync by (simp add: findItemById_def)
  have r: "removeItem (kb_data kb) src (el_itemIndex (drop_item d)) =
           update_column src (splice_remove ?i) (kb_data kb)"
    using scol idx by (simp add: removeItem_def)
  have "find_column (update_column src (splice_remove ?i) (kb_data kb))
          (dl_columnId (drop_targetList d)) \<noteq> None"
    using scol tcol by (simp add: find_column_update)
  then obtain tc where tc: "find_column (update_column src (splice_remove ?i) (kb_data kb))
      (dl_columnId (drop_targetList d)) = Some tc"
    by blast
  have "kb_data (fst (handleDrop kb d)) =
          update_column (dl_columnId (drop_targetList d))
            (splice_insert
               (nat (min (max 0 (if drop_targetIndex d \<noteq> 0 then drop_targetIndex d
                                 else \<lfloor>double_divide (drop_position d) (kb_ITEM_HEIGHT kb)\<rfloor>))
                         (int (length (col_items tc)))))
               ?it)
            (update_column src (splice_remove ?i) (kb_data kb))"
    using f r tc src by (simp add: handleDrop_def addItem_def Let_def)
  with tc show ?thesis by blast
qed

lemma handleDrop_keeps_items:
  assumes ids: "distinct (map item_id (all_items (kb_data kb)))"
      and src: "el_sourceColumnId (drop_item d) = Some src"
      and scol: "find_column (kb_data kb) src = Some scol"
      and idx: "0 \<le> el_itemIndex (drop_item d)"
               "el_itemIndex (drop_item d) < int (length (col_items scol))"
      and sync: "item_id (col_items scol ! nat (el_itemIndex (drop_item d))) = dd_id (drop_data d)"
      and tcol: "find_column (kb_data kb) (dl_columnId (drop_targetList d)) = Some tcol"
  shows "mset (all_items (kb_data (fst (handleDrop kb d)))) = mset (all_items (kb_data kb))"
proof -
  let ?cols = "kb_data kb"
  let ?i = "nat (el_itemIndex (drop_item d))"
  let ?it = "col_items scol ! ?i"
  let ?tgt = "dl_columnId (drop_targetList d)"
  let ?cols1 = "update_column src (splice_remove ?i) ?cols"
  let ?post = "kb_data (fst (handleDrop kb d))"
  have i: "?i < length (col_items scol)" using idx by simp
  from handleDrop_commit[OF assms] obtain tc v where
    tc: "find_column ?cols1 ?tgt = Some tc" and
    post: "?post = update_column ?tgt (splice_insert v ?it) ?cols1" by blast
  have m1: "mset (all_items ?cols1) + mset (col_items scol) =
            mset (all_items ?cols) + mset (splice_remove ?i (col_items scol))"
    by (rule mset_all_items_update[OF scol])
  have m2: "mset (all_items ?post) + mset (col_items tc) =
            mset (all_items ?cols1) + add_mset ?it (mset (col_items tc))"
    unfolding post using mset_all_items_update[OF tc, of "splice_insert v ?it"]
    by (simp add: mset_splice_insert)
  have m3: "mset (splice_remove ?i (col_items scol)) + {#?it#} = mset (col_items scol)"
    by (rule mset_splice_remove[OF i])
  from m2 have m4: "mset (all_items ?post) = add_mset ?it (mset (all_items ?cols1))" by simp
  from m1 m3 have "add_mset ?it (mset (all_items ?cols1)) + mset (splice_remove ?i (col_items scol))
      = mset (all_items ?cols) + mset (splice_remove ?i (col_items scol))"
    by (metis add_mset_add_single union_commute union_assoc)
  then have m5: "add_mset ?it (mset (all_items ?cols1)) = mset (all_items ?cols)" by simp
  show ?thesis using m4 m5 by simp
qed

lemma mset_items_distinct_ids:
  assumes "mset xs = mset ys" "distinct (map item_id ys)"
  shows "distinct (map item_id xs)"
proof -
  have "mset (map item_id xs) = mset (map item_id ys)" using assms(1) by (metis mset_map)
  then show ?thesis using assms(2) by (metis mset_eq_imp_distinct_iff)
qed

section \<open>Facts about JavaScript numbers\<close>

lemma pow2_pos: "0 < (2::rat) powi e"
  by (simp add: zero_less_power_int)

lemma pow2_mono: "a \<le> b \<Longrightarrow> (2::rat) powi a \<le> 2 powi b"
  by (rule power_int_increasing) simp_all

lemma pow2_nat: "0 \<le> e \<Longrightarrow> (2::rat) powi e = of_int (2 ^ nat e)"
  by (simp add: power_int_nonneg_exp)

lemma binade_bounds_ge1:
  assumes "1 \<le> \<bar>x\<bar>"
  shows "2 powi binade x \<le> \<bar>x\<bar> \<and> \<bar>x\<bar> < 2 powi (binade x + 1)"
proof -
  let ?n = "\<lfloor>\<bar>x\<bar>\<rfloor>"
  have n: "0 < ?n" using assms by simp
  have b1: "1 \<le> bitlen ?n" using n by (simp add: bitlen_alt_def)
  from bitlen_bounds[OF n] have lo: "2 ^ nat (bitlen ?n - 1) \<le> ?n"
    and hi: "?n < 2 ^ nat (bitlen ?n)" by simp_all
  have e: "binade x = bitlen ?n - 1" using assms by (simp add: binade_def)
  have "(2::rat) powi (bitlen ?n - 1) = of_int (2 ^ nat (bitlen ?n - 1))"
    using b1 by (intro pow2_nat) simp
  also have "\<dots> \<le> of_int ?n" using lo by (simp only: of_int_le_iff)
  also have "\<dots> \<le> \<bar>x\<bar>" by simp
  finally have A: "2 powi binade x \<le> \<bar>x\<bar>" by (simp only: e)
  have "?n + 1 \<le> 2 ^ nat (bitlen ?n)" using hi by simp
  then have "(of_int (?n + 1) :: rat) \<le> of_int (2 ^ nat (bitlen ?n))" by (simp only: of_int_le_iff)
  moreover have "\<bar>x\<bar> < of_int (?n + 1)" by simp linarith
  moreover have "(2::rat) powi (bitlen ?n) = of_int (2 ^ nat (bitlen ?n))"
    using b1 by (intro pow2_nat) simp
  ultimately have "\<bar>x\<bar> < 2 powi (bitlen ?n)" by simp
  then have B: "\<bar>x\<bar> < 2 powi (binade x + 1)" by (simp add: e)
  from A B show ?thesis ..
qed

lemma binade_bounds_lt1:
  assumes "x \<noteq> 0" "\<bar>x\<bar> < 1"
  shows "2 powi binade x \<le> \<bar>x\<bar> \<and> \<bar>x\<bar> < 2 powi (binade x + 1)"
proof -
  let ?y = "1 / \<bar>x\<bar>"
  let ?N = "\<lceil>?y\<rceil>"
  let ?k = "bitlen (?N - 1)"
  have xp: "0 < \<bar>x\<bar>" using assms(1) by simp
  have y1: "1 < ?y" using assms xp by (simp add: less_divide_eq)
  then have N2: "2 \<le> ?N" by (simp add: le_ceiling_iff) 
  then have n: "0 < ?N - 1" by simp
  have k1: "1 \<le> ?k" using n by (simp add: bitlen_alt_def)
  from bitlen_bounds[OF n] have lo: "2 ^ nat (?k - 1) \<le> ?N - 1"
    and hi: "?N - 1 < 2 ^ nat ?k" by simp_all
  have e: "binade x = - ?k" using assms by (simp add: binade_def)
  have ylo: "of_int (?N - 1) < ?y" by (metis ceiling_correct of_int_diff of_int_1)
  have yhi: "?y \<le> of_int ?N" by simp
  have "?N \<le> 2 ^ nat ?k" using hi by simp
  then have "(of_int ?N :: rat) \<le> of_int (2 ^ nat ?k)" by (simp only: of_int_le_iff)
  with yhi have "?y \<le> of_int (2 ^ nat ?k)" by (rule order_trans)
  also have "\<dots> = 2 powi ?k" using k1 by (subst pow2_nat) simp_all
  finally have "?y \<le> 2 powi ?k" .
  then have "1 \<le> 2 powi ?k * \<bar>x\<bar>" using xp by (simp add: divide_le_eq)
  then have "1 / 2 powi ?k \<le> \<bar>x\<bar>" using pow2_pos[of ?k] by (simp add: divide_le_eq mult.commute)
  then have A: "2 powi binade x \<le> \<bar>x\<bar>" by (simp add: e power_int_minus_divide)
  have "(of_int (2 ^ nat (?k - 1)) :: rat) \<le> of_int (?N - 1)" using lo by (simp only: of_int_le_iff)
  with ylo have "of_int (2 ^ nat (?k - 1)) < ?y" by simp
  moreover have "(2::rat) powi (?k - 1) = of_int (2 ^ nat (?k - 1))"
    using k1 by (intro pow2_nat) simp
  ultimately have "2 powi (?k - 1) < ?y" by simp
  then have "2 powi (?k - 1) * \<bar>x\<bar> < 1" using xp by (simp add: less_divide_eq)
  then have "\<bar>x\<bar> < 1 / 2 powi (?k - 1)" using pow2_pos[of "?k - 1"] by (simp add: less_divide_eq mult.commute)
  also have "\<dots> = 2 powi (- (?k - 1))" by (simp only: power_int_minus_divide)
  also have "- (?k - 1) = binade x + 1" by (simp add: e)
  finally have B: "\<bar>x\<bar> < 2 powi (binade x + 1)" .
  from A B show ?thesis ..
qed

lemma binade_bounds:
  "x \<noteq> 0 \<Longrightarrow> 2 powi binade x \<le> \<bar>x\<bar> \<and> \<bar>x\<bar> < 2 powi (binade x + 1)"
  using binade_bounds_ge1[of x] binade_bounds_lt1[of x] by (cases "1 \<le> \<bar>x\<bar>") simp_all

lemma binade_unique:
  assumes "2 powi e \<le> \<bar>x\<bar>" "\<bar>x\<bar> < 2 powi (e + 1)"
  shows "binade x = e"
proof -
  from pow2_pos[of e] assms(1) have "0 < \<bar>x\<bar>" by (rule less_le_trans)
  then have "x \<noteq> 0" by simp
  from binade_bounds[OF this] have lo: "2 powi binade x \<le> \<bar>x\<bar>"
    and hi: "\<bar>x\<bar> < 2 powi (binade x + 1)" by simp_all
  have "\<not> binade x < e"
  proof
    assume "binade x < e"
    then have "(2::rat) powi (binade x + 1) \<le> 2 powi e" by (intro pow2_mono) simp
    with hi assms(1) show False by simp
  qed
  moreover have "\<not> e < binade x"
  proof
    assume "e < binade x"
    then have "(2::rat) powi (e + 1) \<le> 2 powi binade x" by (intro pow2_mono) simp
    with lo assms(2) show False by simp
  qed
  ultimately show ?thesis by simp
qed

lemma round_even_of_int: "round_even (of_int n) = n"
  by (simp add: round_even_def)

lemma round_even_ge_floor: "\<lfloor>q\<rfloor> \<le> round_even q"
  by (simp add: round_even_def Let_def)

lemma round_even_upper: "of_int (round_even q) \<le> q + 1 / 2"
proof -
  have a: "of_int \<lfloor>q\<rfloor> \<le> q" by simp
  have b: "q < of_int \<lfloor>q\<rfloor> + 1" by linarith
  consider "q - of_int \<lfloor>q\<rfloor> < 1 / 2" | "1 / 2 < q - of_int \<lfloor>q\<rfloor>"
    | "q - of_int \<lfloor>q\<rfloor> = 1 / 2" by linarith
  then show ?thesis
  proof cases
    case 1
    then have eq: "round_even q = \<lfloor>q\<rfloor>" by (simp add: round_even_def Let_def)
    have "of_int \<lfloor>q\<rfloor> \<le> q + 1 / 2" using a by linarith
    then show ?thesis by (simp only: eq)
  next
    case 2
    then have "round_even q = \<lfloor>q\<rfloor> + 1" by (simp add: round_even_def Let_def)
    then show ?thesis using 2 by simp
  next
    case 3
    then have "round_even q = \<lfloor>q\<rfloor> \<or> round_even q = \<lfloor>q\<rfloor> + 1"
      by (simp add: round_even_def Let_def)
    then show ?thesis using 3 by auto
  qed
qed

lemma round_even_ge:
  assumes "of_int N \<le> q"
  shows "N \<le> round_even q"
proof -
  have "N \<le> \<lfloor>q\<rfloor>" using assms by (simp add: le_floor_iff)
  then show ?thesis using round_even_ge_floor[of q] by (rule order_trans)
qed

lemma round_even_less:
  assumes "q < of_int N - 1 / 2"
  shows "round_even q < N"
proof -
  from assms round_even_upper[of q] have "(of_int (round_even q) :: rat) < of_int N" by simp
  then show ?thesis by (simp only: of_int_less_iff)
qed

lemma double_round_binade:
  assumes "2 powi e \<le> \<bar>x\<bar>" "\<bar>x\<bar> < 2 powi (e + 1)" "- 1022 \<le> e"
  shows "double_round x = of_int (round_even (x / 2 powi (e - 52))) * 2 powi (e - 52)"
proof -
  from pow2_pos[of e] assms(1) have "0 < \<bar>x\<bar>" by (rule less_le_trans)
  then have "x \<noteq> 0" by simp
  then show ?thesis
    using assms(3) by (simp add: double_round_def ulp_exponent_def binade_unique[OF assms(1,2)])
qed

lemma round_even_le:
  assumes "q \<le> of_int N"
  shows "round_even q \<le> N"
proof -
  from assms round_even_upper[of q] have "(of_int (round_even q) :: rat) < of_int N + 1"
    by linarith
  then have "(of_int (round_even q) :: rat) < of_int (N + 1)" by simp
  then have "round_even q < N + 1" by (simp only: of_int_less_iff)
  then show ?thesis by simp
qed

lemma pow2_less_imp: "(2::rat) powi a < 2 powi b \<Longrightarrow> a < b"
  using pow2_mono[of b a] by (cases "a < b") auto

lemma pow2_split: "(2::rat) powi (a - b) * 2 powi b = 2 powi a"
  by (simp add: power_int_add[symmetric])

lemma double_round_nonneg:
  assumes "0 \<le> x"
  shows "0 \<le> double_round x"
proof (cases "x = 0")
  case True
  then show ?thesis by (simp add: double_round_def)
next
  case False
  have "(of_int 0 :: rat) \<le> x / 2 powi ulp_exponent x"
    using assms pow2_pos[of "ulp_exponent x"] by simp
  then have "0 \<le> round_even (x / 2 powi ulp_exponent x)" by (rule round_even_ge)
  then show ?thesis using False pow2_pos[of "ulp_exponent x"] by (simp add: double_round_def)
qed

lemma double_round_nonpos:
  assumes "x \<le> 0"
  shows "double_round x \<le> 0"
proof (cases "x = 0")
  case True
  then show ?thesis by (simp add: double_round_def)
next
  case False
  have "x / 2 powi ulp_exponent x \<le> of_int 0"
    using assms pow2_pos[of "ulp_exponent x"] by (simp add: divide_le_0_iff)
  then have "round_even (x / 2 powi ulp_exponent x) \<le> 0" by (rule round_even_le)
  then show ?thesis using False pow2_pos[of "ulp_exponent x"]
    by (simp add: double_round_def mult_le_0_iff)
qed

lemma double_round_le_pow2:
  assumes "x < 2 powi E" "- 1021 \<le> E"
  shows "double_round x \<le> 2 powi E"
proof (cases "x \<le> 0")
  case True
  then have "double_round x \<le> 0" by (rule double_round_nonpos)
  with pow2_pos[of E] show ?thesis by linarith
next
  case False
  then have x0: "x \<noteq> 0" and ax: "\<bar>x\<bar> = x" by simp_all
  let ?q = "ulp_exponent x"
  let ?m = "round_even (x / 2 powi ?q)"
  from binade_bounds[OF x0] ax have "2 powi binade x \<le> x" by simp
  with assms(1) have "(2::rat) powi binade x < 2 powi E" by simp
  then have "binade x < E" by (rule pow2_less_imp)
  with assms(2) have q: "0 \<le> E - ?q" by (simp add: ulp_exponent_def)
  have "x / 2 powi ?q < 2 powi E / 2 powi ?q"
    using assms(1) pow2_pos[of ?q] by (simp add: divide_strict_right_mono)
  also have "2 powi E / (2::rat) powi ?q = 2 powi (E - ?q)" by (simp add: power_int_diff)
  also have "\<dots> = of_int (2 ^ nat (E - ?q))" using q by (rule pow2_nat)
  finally have "?m \<le> 2 ^ nat (E - ?q)" by (intro round_even_le) simp
  then have "(of_int ?m :: rat) \<le> of_int (2 ^ nat (E - ?q))" by (simp only: of_int_le_iff)
  also have "\<dots> = 2 powi (E - ?q)" using q by (rule pow2_nat[symmetric])
  finally have "(of_int ?m :: rat) * 2 powi ?q \<le> 2 powi (E - ?q) * 2 powi ?q"
    using pow2_pos[of ?q] by (simp add: mult_right_mono)
  then show ?thesis using x0 by (simp only: pow2_split double_round_def if_False)
qed

lemma double_round_grid:
  assumes "2 powi E \<le> double_round z" "- 1021 \<le> E"
  shows "\<exists>M. double_round z = of_int M * 2 powi (E - 52)"
proof -
  let ?q = "ulp_exponent z"
  let ?m = "round_even (z / 2 powi ?q)"
  have rpos: "0 < double_round z" using assms(1) pow2_pos[of E] by linarith
  have zpos: "0 < z"
  proof (rule ccontr)
    assume "\<not> 0 < z"
    then have "double_round z \<le> 0" by (intro double_round_nonpos) simp
    with rpos show False by simp
  qed
  then have z0: "z \<noteq> 0" and az: "\<bar>z\<bar> = z" by simp_all
  have r: "double_round z = of_int ?m * 2 powi ?q" using z0 by (simp add: double_round_def)
  show ?thesis
  proof (cases "E \<le> binade z")
    case True
    then have q: "0 \<le> ?q - (E - 52)" by (simp add: ulp_exponent_def)
    have "(2::rat) powi ?q = 2 powi (?q - (E - 52)) * 2 powi (E - 52)"
      by (simp only: pow2_split)
    also have "(2::rat) powi (?q - (E - 52)) = of_int (2 ^ nat (?q - (E - 52)))"
      using q by (rule pow2_nat)
    finally have "double_round z = of_int (?m * 2 ^ nat (?q - (E - 52))) * 2 powi (E - 52)"
      by (simp add: r)
    then show ?thesis ..
  next
    case False
    then have "binade z + 1 \<le> E" by simp
    then have "(2::rat) powi (binade z + 1) \<le> 2 powi E" by (rule pow2_mono)
    moreover from binade_bounds[OF z0] az have "z < 2 powi (binade z + 1)" by simp
    ultimately have "z < 2 powi E" by simp
    then have "double_round z \<le> 2 powi E" using assms(2) by (rule double_round_le_pow2)
    with assms(1) have "double_round z = 2 powi E" by simp
    also have "\<dots> = 2 powi (52 + (E - 52))" by simp
    also have "\<dots> = 2 powi 52 * 2 powi (E - 52)" by (rule power_int_add) simp
    also have "(2::rat) powi 52 = of_int (2 ^ 52)" by simp
    finally show ?thesis ..
  qed
qed

lemma double_round_ge_int:
  assumes "of_int k \<le> x" "0 \<le> k" "x < 2 ^ 52"
  shows "of_int k \<le> double_round x"
proof (cases "1 \<le> x")
  case False
  with assms(1) have "(of_int k :: rat) < of_int 1" by simp
  then have "k < 1" by (simp only: of_int_less_iff)
  with assms(2) have "k = 0" by simp
  moreover have "0 \<le> double_round x" using assms(1,2) by (intro double_round_nonneg) simp
  ultimately show ?thesis by simp
next
  case True
  then have x0: "x \<noteq> 0" and ax: "\<bar>x\<bar> = x" by simp_all
  let ?b = "binade x"
  from binade_bounds[OF x0] ax have lo: "2 powi ?b \<le> x" and hi: "x < 2 powi (?b + 1)"
    by simp_all
  have "(2::rat) powi 0 < 2 powi (?b + 1)" using True hi by simp
  then have b0: "0 \<le> ?b" using pow2_less_imp[of 0 "?b + 1"] by simp
  have "(2::rat) powi ?b < 2 powi 52" using lo assms(3) by simp
  then have b52: "?b < 52" by (rule pow2_less_imp)
  have q: "ulp_exponent x = ?b - 52" using b0 by (simp add: ulp_exponent_def)
  have "(2::rat) powi (?b - 52) = 2 powi (- (52 - ?b))" by simp
  also have "\<dots> = 1 / 2 powi (52 - ?b)" by (rule power_int_minus_divide)
  also have "(2::rat) powi (52 - ?b) = 2 ^ nat (52 - ?b)"
    using b52 by (simp add: power_int_nonneg_exp)
  finally have p: "(2::rat) powi (?b - 52) = 1 / 2 ^ nat (52 - ?b)" .
  have "(of_int (k * 2 ^ nat (52 - ?b)) :: rat) \<le> x * 2 ^ nat (52 - ?b)"
    using assms(1) by simp
  then have "k * 2 ^ nat (52 - ?b) \<le> round_even (x * 2 ^ nat (52 - ?b))"
    by (rule round_even_ge)
  then have "(of_int (k * 2 ^ nat (52 - ?b)) :: rat)
      \<le> of_int (round_even (x * 2 ^ nat (52 - ?b)))" by (simp only: of_int_le_iff)
  then show ?thesis using x0 by (simp add: double_round_def q p le_divide_eq)
qed

lemma double_round_less_int:
  assumes r: "r = double_round z"
    and h: "1 \<le> h" "h \<le> 2 ^ 20"
    and n: "1 \<le> n" "n \<le> 2 ^ 32"
    and hi: "r < of_int h * of_int n"
  shows "double_round (r / of_int h) < of_int n"
proof -
  define H :: rat where "H = of_int h"
  define x where "x = r / H"
  define e where "e = binade (of_int n - 1 / 2)"
  define a where "a = binade H"
  have H1: "1 \<le> H" using h(1) by (simp add: H_def)
  then have Hpos: "0 < H" by simp
  have H20: "H \<le> 2 ^ 20"
  proof -
    have "(of_int h :: rat) \<le> of_int (2 ^ 20)" using h(2) by (simp only: of_int_le_iff)
    then show ?thesis by (simp add: H_def)
  qed
  have n1: "(1::rat) \<le> of_int n" using n(1) by simp
  have n32: "(of_int n :: rat) \<le> 2 ^ 32"
  proof -
    have "(of_int n :: rat) \<le> of_int (2 ^ 32)" using n(2) by (simp only: of_int_le_iff)
    then show ?thesis by simp
  qed
  have xn: "x < of_int n" using hi Hpos by (simp add: x_def H_def divide_less_eq mult.commute)
  have "of_int n - 1 / 2 \<noteq> (0::rat)" using n1 by simp
  moreover have "\<bar>of_int n - 1 / 2\<bar> = (of_int n - 1 / 2 :: rat)" using n1 by simp
  ultimately have elo: "2 powi e \<le> (of_int n - 1 / 2 :: rat)"
    and ehi: "(of_int n - 1 / 2 :: rat) < 2 powi (e + 1)"
    using binade_bounds[of "of_int n - 1 / 2"] by (simp_all add: e_def)
  have "(2::rat) powi (- 1) < 2 powi (e + 1)" using ehi n1 by simp
  then have e1: "- 1 \<le> e" using pow2_less_imp[of "- 1" "e + 1"] by simp
  have "(2::rat) powi e < 2 powi 32" using elo n32 by simp
  then have e32: "e < 32" by (rule pow2_less_imp)
  have en: "2 powi e < (of_int n :: rat)" using elo by simp
  have ne: "(of_int n :: rat) \<le> 2 powi (e + 1)"
  proof -
    have p: "(2::rat) powi (e + 1) = of_int (2 ^ nat (e + 1))" using e1 by (intro pow2_nat) simp
    have "(of_int n :: rat) < of_int (2 ^ nat (e + 1) + 1)" using ehi by (simp add: p)
    then have "n < 2 ^ nat (e + 1) + 1" by (simp only: of_int_less_iff)
    then have "n \<le> 2 ^ nat (e + 1)" by simp
    then have "(of_int n :: rat) \<le> of_int (2 ^ nat (e + 1))" by (simp only: of_int_le_iff)
    then show ?thesis by (simp only: p)
  qed
  show ?thesis
  proof (cases "x < 2 powi e")
    case True
    then have "double_round x \<le> 2 powi e" using e1 by (intro double_round_le_pow2) simp_all
    with en show ?thesis by (simp add: x_def H_def)
  next
    case False
    then have xe: "2 powi e \<le> x" by simp
    with pow2_pos[of e] have xpos: "0 < x" by linarith
    from binade_bounds[of H] Hpos
    have alo: "2 powi a \<le> H" and ahi: "H < 2 powi (a + 1)" by (simp_all add: a_def)
    have "(2::rat) powi 0 < 2 powi (a + 1)" using H1 ahi by simp
    then have a0: "0 \<le> a" using pow2_less_imp[of 0 "a + 1"] by simp
    have "(2::rat) powi a < 2 powi 21" using alo H20 by simp
    then have a21: "a < 21" by (rule pow2_less_imp)
    define g :: rat where "g = 2 powi (a + e - 52)"
    have gpos: "0 < g" by (simp add: g_def pow2_pos)
    have rx: "r = H * x" using Hpos by (simp add: x_def)
    have "(2::rat) powi (a + e) = 2 powi a * 2 powi e" by (rule power_int_add) simp
    also have "\<dots> \<le> H * x" using alo xe Hpos by (intro mult_mono) simp_all
    finally have "2 powi (a + e) \<le> double_round z" by (simp add: rx[symmetric] r)
    then obtain M where M: "double_round z = of_int M * g"
      unfolding g_def using double_round_grid[of "a + e" z] a0 e1 by auto
    have c: "0 \<le> 52 - (a + e)" using a21 e32 by simp
    have "(2::rat) powi (52 - (a + e)) * g = 2 powi 0"
      unfolding g_def by (subst power_int_add[symmetric]) simp_all
    moreover have "(2::rat) powi (52 - (a + e)) = of_int (2 ^ nat (52 - (a + e)))"
      using c by (rule pow2_nat)
    ultimately have g1: "of_int (2 ^ nat (52 - (a + e))) * g = 1" by simp
    have "H * of_int n = of_int (h * n) * (of_int (2 ^ nat (52 - (a + e))) * g)"
      by (simp only: g1) (simp add: H_def)
    then have Hn: "H * of_int n = of_int (h * n * 2 ^ nat (52 - (a + e))) * g" by simp
    have "of_int M * g < of_int (h * n * 2 ^ nat (52 - (a + e))) * g"
      using hi by (simp only: Hn[symmetric] M[symmetric] r[symmetric] H_def)
    then have "(of_int M :: rat) < of_int (h * n * 2 ^ nat (52 - (a + e)))"
      using gpos by (simp only: mult_less_cancel_right_pos)
    then have "M < h * n * 2 ^ nat (52 - (a + e))" by (simp only: of_int_less_iff)
    then have "M + 1 \<le> h * n * 2 ^ nat (52 - (a + e))" by simp
    then have "(of_int (M + 1) :: rat) \<le> of_int (h * n * 2 ^ nat (52 - (a + e)))"
      by (simp only: of_int_le_iff)
    then have "of_int (M + 1) * g \<le> of_int (h * n * 2 ^ nat (52 - (a + e))) * g"
      using gpos by (simp only: mult_le_cancel_right_pos)
    then have "r + g \<le> H * of_int n"
      by (simp only: Hn[symmetric]) (simp add: r M algebra_simps)
    then have "H * x \<le> H * (of_int n - g / H)" using Hpos by (simp add: rx algebra_simps)
    then have x1: "x \<le> of_int n - g / H" using Hpos by (simp only: mult_le_cancel_left_pos)
    have "g / 2 powi (a + 1) < g / H" using ahi gpos Hpos by (intro divide_strict_left_mono) simp_all
    moreover have "g / 2 powi (a + 1) = 2 powi (e - 53)"
      unfolding g_def by (subst power_int_diff[symmetric]) simp_all
    ultimately have x2: "x < of_int n - 2 powi (e - 53)" using x1 by simp
    define u :: rat where "u = 2 powi (e - 52)"
    have upos: "0 < u" by (simp add: u_def pow2_pos)
    have c2: "0 \<le> 52 - e" using e32 by simp
    have "(2::rat) powi (52 - e) * u = 2 powi 0"
      unfolding u_def by (subst power_int_add[symmetric]) simp_all
    moreover have "(2::rat) powi (52 - e) = of_int (2 ^ nat (52 - e))" using c2 by (rule pow2_nat)
    ultimately have u1: "of_int (2 ^ nat (52 - e)) * u = 1" by simp
    have nu: "(of_int n :: rat) = of_int (n * 2 ^ nat (52 - e)) * u"
    proof -
      have "(of_int n :: rat) = of_int n * (of_int (2 ^ nat (52 - e)) * u)"
        by (simp only: u1 mult_1_right)
      then show ?thesis by simp
    qed
    have "2 powi (e - 53) = u / 2"
    proof -
      have "(2::rat) powi (e - 53) = 2 powi (e - 52) / 2 powi 1"
        by (subst power_int_diff[symmetric]) simp_all
      then show ?thesis by (simp add: u_def)
    qed
    with x2 have "x < of_int (n * 2 ^ nat (52 - e)) * u - u / 2" by (simp only: nu[symmetric])
    then have "x / u < (of_int (n * 2 ^ nat (52 - e)) * u - u / 2) / u"
      using upos by (simp only: divide_strict_right_mono)
    also have "\<dots> = of_int (n * 2 ^ nat (52 - e)) - 1 / 2" using upos by (simp add: field_simps)
    finally have "round_even (x / u) < n * 2 ^ nat (52 - e)" by (rule round_even_less)
    then have "(of_int (round_even (x / u)) :: rat) < of_int (n * 2 ^ nat (52 - e))"
      by (simp only: of_int_less_iff)
    then have "of_int (round_even (x / u)) * u < of_int (n * 2 ^ nat (52 - e)) * u"
      using upos by (simp only: mult_less_cancel_right_pos)
    then have m: "of_int (round_even (x / u)) * u < of_int n" by (simp only: nu[symmetric])
    have "\<bar>x\<bar> < 2 powi (e + 1)" using xn ne xpos by simp
    moreover have "2 powi e \<le> \<bar>x\<bar>" using xe xpos by simp
    ultimately have "double_round x = of_int (round_even (x / u)) * u"
      unfolding u_def using e1 by (intro double_round_binade) simp_all
    with m show ?thesis by (simp add: x_def H_def)
  qed
qed

lemma row_index:
  assumes "1 \<le> h" "h \<le> 2 ^ 20" "0 \<le> k" "k < 2 ^ 32"
    and "of_int h * of_int k \<le> double_round z"
    and "double_round z < of_int h * (of_int k + 1)"
  shows "\<lfloor>double_round (double_round z / of_int h)\<rfloor> = k"
proof -
  have Hpos: "(0::rat) < of_int h" using assms(1) by simp
  have "double_round z < of_int h * of_int (k + 1)" using assms(6) by simp
  then have a: "double_round (double_round z / of_int h) < of_int (k + 1)"
    using assms(1-4) by (intro double_round_less_int[OF refl]) simp_all
  have xk: "of_int k \<le> double_round z / (of_int h :: rat)"
    using assms(5) Hpos by (simp add: le_divide_eq mult.commute)
  have "k + 1 \<le> 2 ^ 32" using assms(4) by simp
  then have k32: "(of_int (k + 1) :: rat) \<le> of_int (2 ^ 32)" by (simp only: of_int_le_iff)
  have "double_round z / (of_int h :: rat) < of_int (k + 1)"
    using assms(6) Hpos by (simp add: divide_less_eq mult.commute)
  also note k32
  finally have "double_round z / of_int h < 2 ^ 52" by simp
  with xk assms(3) have b: "of_int k \<le> double_round (double_round z / of_int h)"
    by (rule double_round_ge_int)
  from a have "double_round (double_round z / of_int h) < of_int k + 1" by simp
  with b show ?thesis by (rule floor_unique)
qed

text \<open>
  Values of the two operations at the coordinates of the scenarios below; all of them
  are exact.
\<close>

lemma double_minus_75: "double_minus 75 0 = 75"
  by code_simp

lemma double_divide_75: "double_divide 75 50 = 3 / 2"
  by code_simp

lemma double_minus_125: "double_minus 125 0 = 125"
  by code_simp

lemma double_divide_125: "double_divide 125 50 = 5 / 2"
  by code_simp

lemma double_minus_175: "double_minus 175 0 = 175"
  by code_simp

lemma double_divide_175: "double_divide 175 50 = 7 / 2"
  by code_simp

lemmas double_values = double_minus_75 double_divide_75 double_minus_125 double_divide_125
  double_minus_175 double_divide_175

text \<open>
  Where the rounding shows. The numbers nearest to 150.1 and 0.1 differ by a little
  less than 150, and their computed difference is 150: a pointer at \<open>clientY = 150.1\<close>
  over a list with \<open>rect.top = 0.1\<close> is in row 3 at item height 50. The number
  nearest to 0.1 is a little more than 0.1, so that 1 lies under ten times that number,
  yet the computed quotient of 1 by it is 10: for an item height that is not a whole
  number the computed row can be the one after the slot of the computed difference.
\<close>

lemma double_minus_rounds_up:
  "double_round (1501 / 10) - double_round (1 / 10) < 150 \<and>
   double_minus (double_round (1501 / 10)) (double_round (1 / 10)) = 150 \<and>
   \<lfloor>double_divide (double_minus (double_round (1501 / 10)) (double_round (1 / 10))) 50\<rfloor> = 3"
  by code_simp

lemma double_divide_rounds_up:
  "9 * double_round (1 / 10) \<le> 1 \<and> 1 < 10 * double_round (1 / 10) \<and>
   \<lfloor>double_divide 1 (double_round (1 / 10))\<rfloor> = 10"
  by code_simp

section \<open>Facts about floors, ceilings and the drag manager\<close>

lemma floor_numeral_div_rat [simp]:
  "\<lfloor>numeral a / numeral b :: rat\<rfloor> = numeral a div numeral b"
  by (metis floor_divide_of_int_eq of_int_numeral)

lemma ceiling_numeral_div_rat [simp]:
  "\<lceil>numeral a / numeral b :: rat\<rceil> = - (- numeral a div numeral b)"
proof -
  have "\<lceil>numeral a / numeral b :: rat\<rceil> = - \<lfloor>of_int (- numeral a) / (of_int (numeral b) :: rat)\<rfloor>"
    by (simp add: ceiling_def)
  also have "\<dots> = - (- numeral a div numeral b)"
    by (simp only: floor_divide_of_int_eq)
  finally show ?thesis .
qed

lemmas board_defs = handleDrop_def findItemById_def find_column_def removeItem_def
  addItem_def splice_remove_def splice_insert_def board_ABCD_def board_two_def listABCD_def
  all_items_def

lemmas drag_defs = new_world_def new_KanbanBoard_def new_DragManager_def pointer_at_def
  pointerDownHandler_def pointerMoveHandler_def pointerMoveFrame_def pointerUpHandler_def
  updateClonePosition_def createDragClone_def createPlaceholder_def removePlaceholder_def
  cleanupDrag_def updatePlaceholderPosition_def handleDragStart_def js_nth_def
  elem_B_def elem_C_def list_todo_def list_done_def run_def Let_def

lemma pointerMoveHandler_board: "w_board (pointerMoveHandler e w) = w_board w"
  by (simp add: pointerMoveHandler_def Let_def)

lemma pointerMoveFrame_board: "w_board (pointerMoveFrame e w) = w_board w"
  by (simp add: pointerMoveFrame_def Let_def)

lemma frames_board: "w_board (fold pointerMoveFrame es w) = w_board w"
  by (induction es arbitrary: w) (simp_all add: pointerMoveFrame_board)

lemma pointerUpHandler_no_target:
  "ev_dropList e = None \<Longrightarrow> w_board (pointerUpHandler e w) = w_board w"
  by (simp add: pointerUpHandler_def Let_def split: option.splits)

lemma step_board: "no_drop_target ev \<Longrightarrow> w_board (step w ev) = w_board w"
  by (cases ev)
     (simp_all add: pointerMoveHandler_board frames_board pointerUpHandler_no_target)

lemma run_board: "list_all no_drop_target evs \<Longrightarrow> w_board (run w evs) = w_board w"
  unfolding run_def
  by (induction evs arbitrary: w) (simp_all add: step_board)

lemma active_mid:
  "dragActive (w_drag (run (new_world board_ABCD 50)
      [PointerDown (pointer_at 60 elem_B (Some (list_todo 0))),
       PointerMove (pointer_at 500 elem_B None), AnimationFrame]))"
  by (simp add: drag_defs)

lemma updatePlaceholderPosition_index:
  assumes "dragActive dm" "draggedItem dm = Some dragged"
  shows "placeholderIndex (updatePlaceholderPosition e dropList dm) =
           \<lfloor>double_divide (double_minus (ev_clientY e) (dl_top dropList)) (itemHeight dm)\<rfloor>"
  using assms
  by (simp add: updatePlaceholderPosition_def createPlaceholder_def removePlaceholder_def Let_def)

lemma updatePlaceholderPosition_before:
  assumes "dragActive dm" "draggedItem dm = Some dragged"
    and "\<lfloor>double_divide (double_minus (ev_clientY e) (dl_top dropList)) (itemHeight dm)\<rfloor> \<noteq> placeholderIndex dm"
  shows "placeholder (updatePlaceholderPosition e dropList dm) =
           Some \<lparr>ph_display = True, ph_parent = Some (dl_node dropList),
                 ph_before = js_nth (filter (\<lambda>n. n \<noteq> el_node dragged) (dl_items dropList))
                               \<lfloor>double_divide (double_minus (ev_clientY e) (dl_top dropList)) (itemHeight dm)\<rfloor>\<rparr>"
  using assms
  by (simp add: updatePlaceholderPosition_def createPlaceholder_def removePlaceholder_def Let_def
      js_nth_def)

lemma pointerUpHandler_commit:
  assumes active: "dragActive (w_drag w)" and dragged: "draggedItem (w_drag w) = Some dragged"
      and under: "ev_dropList e = Some dropList"
      and hs: "kb_ITEM_HEIGHT (w_board w) = itemHeight (w_drag w)"
      and ids: "distinct (map item_id (all_items (kb_data (w_board w))))"
      and src: "el_sourceColumnId dragged = Some src"
      and scol: "find_column (kb_data (w_board w)) src = Some scol"
      and idx: "0 \<le> el_itemIndex dragged" "el_itemIndex dragged < int (length (col_items scol))"
      and sync: "item_id (col_items scol ! nat (el_itemIndex dragged)) = dd_id (el_dragData dragged)"
      and tcol: "find_column (kb_data (w_board w)) (dl_columnId dropList) = Some tcol"
  shows "\<exists>tc. find_column (removeItem (kb_data (w_board w)) src (el_itemIndex dragged))
                  (dl_columnId dropList) = Some tc \<and>
           kb_data (w_board (pointerUpHandler e w)) =
             update_column (dl_columnId dropList)
               (splice_insert
                  (nat (min (max 0 \<lfloor>double_divide (double_minus (ev_clientY e) (dl_top dropList)) (itemHeight (w_drag w))\<rfloor>)
                            (int (length (col_items tc)))))
                  (col_items scol ! nat (el_itemIndex dragged)))
               (removeItem (kb_data (w_board w)) src (el_itemIndex dragged))"
proof -
  let ?relY = "double_minus (ev_clientY e) (dl_top dropList)"
  let ?d = "\<lparr>drop_item = dragged, drop_sourceList = sourceList (w_drag w),
             drop_targetList = dropList, drop_data = el_dragData dragged,
             drop_position = ?relY,
             drop_targetIndex = \<lfloor>double_divide ?relY (itemHeight (w_drag w))\<rfloor>\<rparr>"
  have up: "w_board (pointerUpHandler e w) = fst (handleDrop (w_board w) ?d)"
    using active dragged under by (simp add: pointerUpHandler_def Let_def)
  have ti: "(if drop_targetIndex ?d \<noteq> 0 then drop_targetIndex ?d
             else \<lfloor>double_divide (drop_position ?d) (kb_ITEM_HEIGHT (w_board w))\<rfloor>) =
            \<lfloor>double_divide ?relY (itemHeight (w_drag w))\<rfloor>"
    using hs by simp
  have rm: "removeItem (kb_data (w_board w)) src (el_itemIndex dragged) =
            update_column src (splice_remove (nat (el_itemIndex dragged))) (kb_data (w_board w))"
    using scol idx by (simp add: removeItem_def)
  have "\<exists>tc. find_column (update_column src (splice_remove (nat (el_itemIndex (drop_item ?d))))
                  (kb_data (w_board w))) (dl_columnId (drop_targetList ?d)) = Some tc \<and>
           kb_data (fst (handleDrop (w_board w) ?d)) =
             update_column (dl_columnId (drop_targetList ?d))
               (splice_insert
                  (nat (min (max 0 (if drop_targetIndex ?d \<noteq> 0 then drop_targetIndex ?d
                                    else \<lfloor>double_divide (drop_position ?d) (kb_ITEM_HEIGHT (w_board w))\<rfloor>))
                            (int (length (col_items tc)))))
                  (col_items scol ! nat (el_itemIndex (drop_item ?d))))
               (update_column src (splice_remove (nat (el_itemIndex (drop_item ?d)))) (kb_data (w_board w)))"
    by (rule handleDrop_commit[where tcol = tcol]) (use ids src scol idx sync tcol in simp_all)
  then show ?thesis
    unfolding ti up rm by simp
qed

section \<open>States reached by consistent events\<close>

lemma updatePlaceholderPosition_session:
  "draggedItem (updatePlaceholderPosition e dl dm) = draggedItem dm"
  "dragActive (updatePlaceholderPosition e dl dm) = dragActive dm"
  by (simp_all add: updatePlaceholderPosition_def createPlaceholder_def removePlaceholder_def Let_def)

lemma pointerMoveFrame_session:
  "draggedItem (w_drag (pointerMoveFrame e w)) = draggedItem (w_drag w)"
  "dragActive (w_drag (pointerMoveFrame e w)) = dragActive (w_drag w)"
  by (simp_all add: pointerMoveFrame_def updatePlaceholderPosition_session createPlaceholder_def
      removePlaceholder_def Let_def split: drop_target.splits)

lemma frames_session:
  "draggedItem (w_drag (fold pointerMoveFrame es w)) = draggedItem (w_drag w) \<and>
   dragActive (w_drag (fold pointerMoveFrame es w)) = dragActive (w_drag w)"
  by (induction es arbitrary: w) (simp_all add: pointerMoveFrame_session)

lemma session_ok_frames:
  assumes "session_ok w"
  shows "session_ok (fold pointerMoveFrame (w_frames w) (w\<lparr>w_frames := []\<rparr>))"
  using assms frames_session[of "w_frames w" "w\<lparr>w_frames := []\<rparr>"]
    frames_board[of "w_frames w" "w\<lparr>w_frames := []\<rparr>"]
  by (simp add: session_ok_def split: option.splits)

lemma session_ok_move:
  assumes "session_ok w"
  shows "session_ok (pointerMoveHandler e w)"
  using assms
  by (auto simp: session_ok_def pointerMoveHandler_def updateClonePosition_def cleanupDrag_def
      removePlaceholder_def Let_def split: option.splits)

lemma in_sync_handleDragStart:
  "in_sync cols el \<Longrightarrow> el_closestList el = Some sl \<Longrightarrow>
   in_sync cols (handleDragStart el sl) \<and>
   el_sourceColumnId (handleDragStart el sl) =
     map_option dl_columnId (el_closestList (handleDragStart el sl))"
  by (auto simp: in_sync_def handleDragStart_def split: option.splits)

lemma session_ok_down:
  assumes "session_ok w" "in_sync (kb_data (w_board w)) (ev_currentTarget e)"
  shows "session_ok (w\<lparr>w_drag := pointerDownHandler e (w_drag w)\<rparr>)"
proof (cases "ev_button e = 0")
  case False
  then show ?thesis using assms(1) by (simp add: session_ok_def pointerDownHandler_def)
next
  case True
  from assms(2) obtain sl where sl: "el_closestList (ev_currentTarget e) = Some sl"
    by (auto simp: in_sync_def split: option.splits)
  have "draggedItem (pointerDownHandler e (w_drag w)) =
          Some (handleDragStart (ev_currentTarget e) sl)"
    using True sl
    by (simp add: pointerDownHandler_def Let_def updateClonePosition_def createPlaceholder_def
        createDragClone_def)
  then show ?thesis
    using assms in_sync_handleDragStart[OF assms(2) sl] by (simp add: session_ok_def)
qed

lemma session_ok_up:
  assumes ok: "session_ok w" and ev: "event_ok w (PointerUp e)"
  shows "session_ok (pointerUpHandler e w) \<and>
         mset (all_items (kb_data (w_board (pointerUpHandler e w)))) =
           mset (all_items (kb_data (w_board w)))"
proof (cases "dragActive (w_drag w) \<and> draggedItem (w_drag w) \<noteq> None \<and> ev_dropList e \<noteq> None")
  case False
  then have b: "w_board (pointerUpHandler e w) = w_board w"
    by (auto simp: pointerUpHandler_def Let_def split: option.splits)
  have "draggedItem (w_drag (pointerUpHandler e w)) = None \<or>
        w_drag (pointerUpHandler e w) = w_drag w"
    by (auto simp: pointerUpHandler_def Let_def cleanupDrag_def removePlaceholder_def
        split: option.splits)
  then show ?thesis using ok b by (auto simp: session_ok_def split: option.splits)
next
  case True
  then obtain el dl where active: "dragActive (w_drag w)"
    and el: "draggedItem (w_drag w) = Some el" and dl: "ev_dropList e = Some dl" by auto
  let ?d = "\<lparr>drop_item = el, drop_sourceList = sourceList (w_drag w),
             drop_targetList = dl, drop_data = el_dragData el,
             drop_position = double_minus (ev_clientY e) (dl_top dl),
             drop_targetIndex =
               \<lfloor>double_divide (double_minus (ev_clientY e) (dl_top dl)) (itemHeight (w_drag w))\<rfloor>\<rparr>"
  have up: "w_board (pointerUpHandler e w) = fst (handleDrop (w_board w) ?d)"
    and dr: "draggedItem (w_drag (pointerUpHandler e w)) = None"
    using active el dl
    by (simp_all add: pointerUpHandler_def Let_def cleanupDrag_def removePlaceholder_def)
  from ok active el have ids: "distinct (map item_id (all_items (kb_data (w_board w))))"
    and sync: "in_sync (kb_data (w_board w)) el"
    and sc: "el_sourceColumnId el = map_option dl_columnId (el_closestList el)"
    by (simp_all add: session_ok_def)
  from sync obtain sl scol where sl: "el_closestList el = Some sl"
    and scol: "find_column (kb_data (w_board w)) (dl_columnId sl) = Some scol"
    and i0: "0 \<le> el_itemIndex el" and i1: "el_itemIndex el < int (length (col_items scol))"
    and idm: "item_id (col_items scol ! nat (el_itemIndex el)) = dd_id (el_dragData el)"
    by (auto simp: in_sync_def split: option.splits)
  from ev dl obtain tcol where tcol: "find_column (kb_data (w_board w)) (dl_columnId dl) = Some tcol"
    by auto
  have m: "mset (all_items (kb_data (fst (handleDrop (w_board w) ?d)))) =
           mset (all_items (kb_data (w_board w)))"
    by (rule handleDrop_keeps_items[where src = "dl_columnId sl" and scol = scol and tcol = tcol])
       (use ids sc sl scol i0 i1 idm tcol in simp_all)
  then have "distinct (map item_id (all_items (kb_data (fst (handleDrop (w_board w) ?d)))))"
    using ids by (rule mset_items_distinct_ids)
  then show ?thesis using m up dr by (simp add: session_ok_def)
qed

lemma step_keeps_items:
  assumes "session_ok w" "event_ok w ev"
  shows "session_ok (step w ev) \<and>
         mset (all_items (kb_data (w_board (step w ev)))) = mset (all_items (kb_data (w_board w)))"
proof (cases ev)
  case (PointerDown e)
  then show ?thesis using assms session_ok_down[of w e] by simp
next
  case (PointerMove e)
  then show ?thesis using assms session_ok_move[of w e] by (simp add: pointerMoveHandler_board)
next
  case AnimationFrame
  then show ?thesis using assms session_ok_frames[of w] by (simp add: frames_board)
next
  case (PointerUp e)
  then show ?thesis using assms session_ok_up[of w e] by simp
qed

lemma run_keeps_items:
  "session_ok w \<Longrightarrow> run_ok w evs \<Longrightarrow>
   session_ok (run w evs) \<and>
   mset (all_items (kb_data (w_board (run w evs)))) = mset (all_items (kb_data (w_board w)))"
proof (induction evs arbitrary: w)
  case Nil
  then show ?case by (simp add: run_def)
next
  case (Cons ev evs)
  from Cons.prems have e: "event_ok w ev" and r: "run_ok (step w ev) evs" by simp_all
  from step_keeps_items[OF Cons.prems(1) e] have s: "session_ok (step w ev)"
    and m: "mset (all_items (kb_data (w_board (step w ev)))) = mset (all_items (kb_data (w_board w)))"
    by simp_all
  from Cons.IH[OF s r] m show ?case by (simp add: run_def)
qed


section \<open>Facts about the scroller\<close>

lemmas scroller_defs = scroller_ABCD_def scroller_empty_def new_VirtualScroller_def
  containerHeight_def visibleItemCount_def effectiveBuffer_def startIndex_def endIndex_def
  listABCD_def

lemma effectiveBuffer_pos:
  assumes "0 < vs_ITEM_HEIGHT s" "0 < containerHeight s"
  shows "0 < effectiveBuffer s"
proof -
  have "0 < containerHeight s / vs_ITEM_HEIGHT s" using assms by simp
  then have "0 < \<lceil>containerHeight s / vs_ITEM_HEIGHT s\<rceil>" by (simp add: less_ceiling_iff)
  then show ?thesis
    unfolding effectiveBuffer_def visibleItemCount_def by (simp only: less_max_iff_disj) simp
qed

lemma release_index_fields:
  "ps_released (release_index a b i p) = ps_released p @ (if i < a \<or> i \<ge> b then [i] else [])"
  "ps_acquired (release_index a b i p) = ps_acquired p"
  "set (ps_visible (release_index a b i p)) =
     set (ps_visible p) - (if i < a \<or> i \<ge> b then {i} else {})"
  by (simp_all add: release_index_def)

lemma remove_loop_released:
  "ps_released (remove_loop a b xs p) = ps_released p @ filter (\<lambda>i. i < a \<or> i \<ge> b) xs"
  by (induction xs arbitrary: p) (simp_all add: release_index_fields)

lemma remove_loop_acquired: "ps_acquired (remove_loop a b xs p) = ps_acquired p"
  by (induction xs arbitrary: p) (simp_all add: release_index_fields)

lemma remove_loop_visible:
  "set (ps_visible (remove_loop a b xs p)) =
     set (ps_visible p) - {i \<in> set xs. i < a \<or> i \<ge> b}"
  by (induction xs arbitrary: p) (auto simp: release_index_fields)

lemma render_index_fields:
  "ps_released (render_index s i p) = ps_released p"
  "ps_acquired (render_index s i p) =
     ps_acquired p @ (if i \<notin> set (ps_visible p) \<and> renders s i then [i] else [])"
  "ps_visible (render_index s i p) =
     ps_visible p @ (if i \<notin> set (ps_visible p) \<and> renders s i then [i] else [])"
  by (simp_all add: render_index_def renders_def split: option.splits)

lemma add_loop_released: "ps_released (add_loop s is p) = ps_released p"
  by (induction "is" arbitrary: p) (simp_all add: render_index_fields)

lemma add_loop_acquired:
  "set (ps_acquired (add_loop s is p)) =
     set (ps_acquired p) \<union> {i \<in> set is. i \<notin> set (ps_visible p) \<and> renders s i}"
proof (induction "is" arbitrary: p)
  case Nil
  then show ?case by simp
next
  case (Cons i rest)
  show ?case
  proof (cases "i \<notin> set (ps_visible p) \<and> renders s i")
    case True
    then show ?thesis
      by (simp add: Cons.IH render_index_fields) blast
  next
    case False
    then have "ps_acquired (render_index s i p) = ps_acquired p"
      "ps_visible (render_index s i p) = ps_visible p"
      by (simp_all add: render_index_fields)
    then show ?thesis using False
      by (simp add: Cons.IH) blast
  qed
qed

lemma add_loop_visible:
  "set (ps_visible (add_loop s is p)) =
     set (ps_visible p) \<union> {i \<in> set is. renders s i}"
proof (induction "is" arbitrary: p)
  case Nil
  then show ?case by simp
next
  case (Cons i rest)
  show ?case
  proof (cases "i \<notin> set (ps_visible p) \<and> renders s i")
    case True
    then show ?thesis
      by (simp add: Cons.IH render_index_fields) blast
  next
    case False
    then have "ps_visible (render_index s i p) = ps_visible p"
      by (simp_all add: render_index_fields)
    then show ?thesis using False
      by (simp add: Cons.IH) blast
  qed
qed

lemma renderVisibleItems_fields:
  "ps_released (renderVisibleItems s) =
     ps_released (add_loop s [startIndex s..endIndex s - 1]
       (remove_loop (startIndex s) (endIndex s) (vs_visibleItems s)
          \<lparr>ps_visible = vs_visibleItems s, ps_list = vs_list s,
           ps_released = [], ps_acquired = []\<rparr>))"
  "ps_acquired (renderVisibleItems s) =
     ps_acquired (add_loop s [startIndex s..endIndex s - 1]
       (remove_loop (startIndex s) (endIndex s) (vs_visibleItems s)
          \<lparr>ps_visible = vs_visibleItems s, ps_list = vs_list s,
           ps_released = [], ps_acquired = []\<rparr>))"
  "ps_visible (renderVisibleItems s) =
     ps_visible (add_loop s [startIndex s..endIndex s - 1]
       (remove_loop (startIndex s) (endIndex s) (vs_visibleItems s)
          \<lparr>ps_visible = vs_visibleItems s, ps_list = vs_list s,
           ps_released = [], ps_acquired = []\<rparr>))"
  by (simp_all add: renderVisibleItems_def Let_def)

lemma set_range: "set [a..b - 1] = {a..<b}" for a b :: int
  by auto

lemma renderVisibleItems_released:
  "ps_released (renderVisibleItems s) =
     filter (\<lambda>i. i < startIndex s \<or> i \<ge> endIndex s) (vs_visibleItems s)"
  by (simp only: renderVisibleItems_fields add_loop_released remove_loop_released
      pass.simps append_Nil)

lemma renderVisibleItems_acquired:
  "set (ps_acquired (renderVisibleItems s)) =
     {i \<in> {startIndex s..<endIndex s} - set (vs_visibleItems s). renders s i}"
proof -
  have "set (ps_acquired (renderVisibleItems s)) =
     {i \<in> {startIndex s..<endIndex s}.
        i \<notin> set (vs_visibleItems s) -
              {i \<in> set (vs_visibleItems s). i < startIndex s \<or> i \<ge> endIndex s} \<and> renders s i}"
    by (simp only: renderVisibleItems_fields add_loop_acquired remove_loop_acquired
        remove_loop_visible set_range pass.simps list.set Un_empty_left)
  also have "\<dots> = {i \<in> {startIndex s..<endIndex s} - set (vs_visibleItems s). renders s i}"
    by auto
  finally show ?thesis .
qed

lemma renderVisibleItems_visible:
  "set (ps_visible (renderVisibleItems s)) =
     (set (vs_visibleItems s) \<inter> {startIndex s..<endIndex s}) \<union>
     {i \<in> {startIndex s..<endIndex s}. renders s i}"
proof -
  have "set (ps_visible (renderVisibleItems s)) =
     (set (vs_visibleItems s) -
        {i \<in> set (vs_visibleItems s). i < startIndex s \<or> i \<ge> endIndex s}) \<union>
     {i \<in> {startIndex s..<endIndex s}. renders s i}"
    by (simp only: renderVisibleItems_fields add_loop_visible
        remove_loop_visible set_range pass.simps)
  also have "\<dots> = (set (vs_visibleItems s) \<inter> {startIndex s..<endIndex s}) \<union>
     {i \<in> {startIndex s..<endIndex s}. renders s i}"
    by auto
  finally show ?thesis .
qed

lemma renders_in_range:
  assumes "i \<in> {startIndex s..<endIndex s}"
  shows "renders s i \<longleftrightarrow> vs_renderItemFn s (vs_items s ! nat i) i (vs_ITEM_HEIGHT s) \<noteq> None"
proof -
  have "0 \<le> i \<and> i < int (length (vs_items s))"
    using assms by (auto simp: startIndex_def endIndex_def)
  then show ?thesis by (simp add: renders_def js_nth_def)
qed

lemma remove_handle_keeps:
  "h \<in> set hs \<Longrightarrow> hd_index h \<noteq> index \<Longrightarrow> h \<in> set (remove_handle index hs)"
  by (induction hs) auto

lemma release_index_keeps:
  assumes "h \<in> set (ps_list p)" "a \<le> hd_index h" "hd_index h < b"
  shows "h \<in> set (ps_list (release_index a b i p))"
proof (cases "i < a \<or> i \<ge> b")
  case True
  with assms have "hd_index h \<noteq> i" by auto
  with assms(1) True show ?thesis by (simp add: release_index_def remove_handle_keeps)
next
  case False
  with assms(1) show ?thesis by (simp add: release_index_def)
qed

lemma remove_loop_keeps:
  "h \<in> set (ps_list p) \<Longrightarrow> a \<le> hd_index h \<Longrightarrow> hd_index h < b \<Longrightarrow>
   h \<in> set (ps_list (remove_loop a b xs p))"
  by (induction xs arbitrary: p) (simp_all add: release_index_keeps)

lemma render_index_keeps: "h \<in> set (ps_list p) \<Longrightarrow> h \<in> set (ps_list (render_index s i p))"
  by (simp add: render_index_def split: option.splits)

lemma add_loop_keeps: "h \<in> set (ps_list p) \<Longrightarrow> h \<in> set (ps_list (add_loop s is p))"
  by (induction "is" arbitrary: p) (simp_all add: render_index_keeps)

lemma renderVisibleItems_keeps:
  assumes "h \<in> set (vs_list s)" "startIndex s \<le> hd_index h" "hd_index h < endIndex s"
  shows "h\<lparr>hd_translateY := of_int (hd_index h) * vs_ITEM_HEIGHT s\<rparr>
           \<in> set (ps_list (renderVisibleItems s))"
proof -
  let ?p0 = "\<lparr>ps_visible = vs_visibleItems s, ps_list = vs_list s,
              ps_released = [], ps_acquired = []\<rparr>"
  have "h \<in> set (ps_list ?p0)" using assms(1) by simp
  then have "h \<in> set (ps_list (remove_loop (startIndex s) (endIndex s) (vs_visibleItems s) ?p0))"
    using assms(2,3) by (rule remove_loop_keeps)
  then have "h \<in> set (ps_list (add_loop s [startIndex s..endIndex s - 1]
      (remove_loop (startIndex s) (endIndex s) (vs_visibleItems s) ?p0)))"
    by (rule add_loop_keeps)
  then show ?thesis
    by (simp add: renderVisibleItems_def Let_def positionAllItems_def image_iff) blast
qed

lemma renderItem_renders:
  "vs_renderItemFn s = renderItem \<Longrightarrow> i \<in> {startIndex s..<endIndex s} \<Longrightarrow> renders s i"
  by (simp add: renders_in_range renderItem_def)

section \<open>The visible range and the render diff\<close>

text \<open>
  C3. For every number of items, every scroll offset between 0 and the number of items
  times the item height, every positive viewport height and every index \<open>i\<close> below the
  number of items whose top edge \<open>i * itemHeight\<close> lies in \<open>[scrollOffset, scrollOffset +
  viewportHeight)\<close>, the range computed by \<open>renderVisibleItems\<close> contains \<open>i\<close>:
  \<open>startIndex \<le> i < endIndex\<close>. The item height is positive. After the pass the
  index is materialized, provided the rendering function returns a handle for it.
\<close>

theorem visible_range_covers:
  assumes h: "0 < vs_ITEM_HEIGHT s"
      and v: "0 < containerHeight s"
      and lo: "0 \<le> ct_scrollTop (vs_container s)"
      and hi: "ct_scrollTop (vs_container s) \<le> of_nat (length (vs_items s)) * vs_ITEM_HEIGHT s"
      and i: "i < length (vs_items s)"
      and top: "ct_scrollTop (vs_container s) \<le> of_nat i * vs_ITEM_HEIGHT s"
      and bot: "of_nat i * vs_ITEM_HEIGHT s < ct_scrollTop (vs_container s) + containerHeight s"
  shows "startIndex s \<le> int i \<and> int i < endIndex s \<and>
         (renders s (int i) \<longrightarrow> int i \<in> set (ps_visible (renderVisibleItems s)))"
proof -
  let ?H = "vs_ITEM_HEIGHT s"
  let ?st = "ct_scrollTop (vs_container s)"
  have eb: "0 < effectiveBuffer s" by (rule effectiveBuffer_pos[OF h v])
  have "?st / ?H \<le> of_nat i" using top h by (simp add: divide_le_eq)
  then have "?st / ?H < of_int (int i) + 1" by simp
  then have "\<lfloor>?st / ?H\<rfloor> \<le> int i" by (simp only: floor_le_iff)
  with eb have a: "startIndex s \<le> int i" by (simp add: startIndex_def)
  have "of_nat i < (?st + containerHeight s) / ?H" using bot h by (simp add: less_divide_eq)
  then have "of_int (int i) < (?st + containerHeight s) / ?H" by simp
  then have "int i < \<lceil>(?st + containerHeight s) / ?H\<rceil>" by (simp only: less_ceiling_iff)
  with eb i have b: "int i < endIndex s" by (simp add: endIndex_def)
  have c: "int i \<in> set (ps_visible (renderVisibleItems s))" if "renders s (int i)"
    unfolding renderVisibleItems_visible using a b that by simp
  from a b c show ?thesis by blast
qed

theorem visible_range_covers_witness:
  "startIndex (scroller_ABCD 120) \<le> int 3 \<and> int 3 < endIndex (scroller_ABCD 120) \<and>
   int 3 \<in> set (ps_visible (renderVisibleItems (scroller_ABCD 120)))"
proof -
  let ?s = "scroller_ABCD 120"
  have h: "0 < vs_ITEM_HEIGHT ?s" by (simp add: scroller_defs)
  have v: "0 < containerHeight ?s" by (simp add: scroller_defs)
  have lo: "0 \<le> ct_scrollTop (vs_container ?s)" by (simp add: scroller_defs)
  have hi: "ct_scrollTop (vs_container ?s) \<le> of_nat (length (vs_items ?s)) * vs_ITEM_HEIGHT ?s"
    by (simp add: scroller_defs)
  have i: "3 < length (vs_items ?s)" by (simp add: scroller_defs)
  have top: "ct_scrollTop (vs_container ?s) \<le> of_nat 3 * vs_ITEM_HEIGHT ?s"
    by (simp add: scroller_defs)
  have bot: "of_nat 3 * vs_ITEM_HEIGHT ?s < ct_scrollTop (vs_container ?s) + containerHeight ?s"
    by (simp add: scroller_defs)
  have r: "vs_renderItemFn ?s = renderItem" by (simp add: scroller_defs)
  from visible_range_covers[OF h v lo hi i top bot]
  have rng: "startIndex ?s \<le> int 3" "int 3 < endIndex ?s"
    and mat: "renders ?s (int 3) \<longrightarrow> int 3 \<in> set (ps_visible (renderVisibleItems ?s))"
    by blast+
  from rng have "int 3 \<in> {startIndex ?s..<endIndex ?s}" by simp
  then have "renders ?s (int 3)" by (rule renderItem_renders[OF r])
  with rng mat show ?thesis by blast
qed

text \<open>
  C4, as amended. For a non-negative scroll offset, a positive viewport height and a
  positive item height, the computed range is exactly \<open>(max(0, floor(scrollOffset /
  itemHeight) - effectiveBuffer), min(itemCount, ceil((scrollOffset + viewportHeight) /
  itemHeight) + effectiveBuffer))\<close> with \<open>effectiveBuffer = max(bufferCount,
  ceil(viewportHeight / itemHeight))\<close>. When there are no items the end index is 0 and
  the range contains no index; the start index is not clamped to the item count, so the
  range is \<open>(0, 0)\<close> exactly when \<open>floor(scrollOffset / itemHeight)\<close> is at most the
  effective buffer, as it is at scroll offset 0.
\<close>

theorem visible_range_formula:
  assumes lo: "0 \<le> ct_scrollTop (vs_container s)"
      and v: "0 < containerHeight s"
      and h: "0 < vs_ITEM_HEIGHT s"
  shows "(startIndex s, endIndex s) =
     spec_computeVisibleRange (int (length (vs_items s))) (ct_scrollTop (vs_container s))
       (containerHeight s) (vs_ITEM_HEIGHT s) (vs_BUFFER_ITEMS s) \<and>
   (vs_items s = [] \<longrightarrow>
      endIndex s = 0 \<and> (\<forall>i. \<not> (startIndex s \<le> i \<and> i < endIndex s)) \<and>
      ((startIndex s, endIndex s) = (0, 0) \<longleftrightarrow>
         \<lfloor>ct_scrollTop (vs_container s) / vs_ITEM_HEIGHT s\<rfloor> \<le> effectiveBuffer s))"
proof -
  have A: "(startIndex s, endIndex s) =
     spec_computeVisibleRange (int (length (vs_items s))) (ct_scrollTop (vs_container s))
       (containerHeight s) (vs_ITEM_HEIGHT s) (vs_BUFFER_ITEMS s)"
    by (simp add: spec_computeVisibleRange_def startIndex_def endIndex_def effectiveBuffer_def
        visibleItemCount_def Let_def)
  have B: "endIndex s = 0 \<and> (\<forall>i. \<not> (startIndex s \<le> i \<and> i < endIndex s)) \<and>
      ((startIndex s, endIndex s) = (0, 0) \<longleftrightarrow>
         \<lfloor>ct_scrollTop (vs_container s) / vs_ITEM_HEIGHT s\<rfloor> \<le> effectiveBuffer s)"
    if e: "vs_items s = []"
  proof -
    have eb: "0 < effectiveBuffer s" by (rule effectiveBuffer_pos[OF h v])
    have "0 \<le> (ct_scrollTop (vs_container s) + containerHeight s) / vs_ITEM_HEIGHT s"
      using lo v h by simp
    then have "0 \<le> \<lceil>(ct_scrollTop (vs_container s) + containerHeight s) / vs_ITEM_HEIGHT s\<rceil>"
      by (simp only: zero_le_ceiling)
    with eb e have e0: "endIndex s = 0" by (simp add: endIndex_def)
    have s0: "0 \<le> startIndex s" by (simp add: startIndex_def)
    have s1: "startIndex s = 0 \<longleftrightarrow>
       \<lfloor>ct_scrollTop (vs_container s) / vs_ITEM_HEIGHT s\<rfloor> \<le> effectiveBuffer s"
      unfolding startIndex_def by linarith
    from e0 s0 s1 show ?thesis by auto
  qed
  from A B show ?thesis by blast
qed

theorem visible_range_formula_witness:
  "(startIndex (scroller_ABCD 120), endIndex (scroller_ABCD 120)) =
     spec_computeVisibleRange 4 120 100 50 5 \<and>
   (startIndex (scroller_ABCD 120), endIndex (scroller_ABCD 120)) = (0, 4) \<and>
   (startIndex (scroller_empty 0), endIndex (scroller_empty 0)) = (0, 0)"
proof -
  have 1: "0 \<le> ct_scrollTop (vs_container (scroller_ABCD 120))"
   and 2: "0 < containerHeight (scroller_ABCD 120)"
   and 3: "0 < vs_ITEM_HEIGHT (scroller_ABCD 120)"
    by (simp_all add: scroller_defs)
  have 4: "0 \<le> ct_scrollTop (vs_container (scroller_empty 0))"
   and 5: "0 < containerHeight (scroller_empty 0)"
   and 6: "0 < vs_ITEM_HEIGHT (scroller_empty 0)"
    by (simp_all add: scroller_defs)
  have 7: "vs_items (scroller_empty 0) = []" by (simp add: scroller_defs)
  have 8: "\<lfloor>ct_scrollTop (vs_container (scroller_empty 0)) / vs_ITEM_HEIGHT (scroller_empty 0)\<rfloor>
      \<le> effectiveBuffer (scroller_empty 0)" by (simp add: scroller_defs)
  have a: "(startIndex (scroller_ABCD 120), endIndex (scroller_ABCD 120)) =
     spec_computeVisibleRange 4 120 100 50 5"
    using visible_range_formula[OF 1 2 3] by (simp add: scroller_defs)
  have b: "spec_computeVisibleRange 4 120 100 50 5 = (0, 4)"
    by (simp add: spec_computeVisibleRange_def)
  have c: "(startIndex (scroller_empty 0), endIndex (scroller_empty 0)) = (0, 0)"
    using visible_range_formula[OF 4 5 6] 7 8 by blast
  from a b c show ?thesis by simp
qed

text \<open>
  The claim C4 as stated fails: with no items, scroll offset 1000, viewport height 100,
  item height 50 and buffer 5 the range is \<open>(15, 0)\<close>, not \<open>(0, 0)\<close>.
\<close>

theorem empty_list_range_counterexample:
  "ct_scrollTop (vs_container (scroller_empty 1000)) \<ge> 0 \<and>
   containerHeight (scroller_empty 1000) > 0 \<and> vs_ITEM_HEIGHT (scroller_empty 1000) > 0 \<and>
   vs_BUFFER_ITEMS (scroller_empty 1000) \<ge> 0 \<and> length (vs_items (scroller_empty 1000)) = 0 \<and>
   (startIndex (scroller_empty 1000), endIndex (scroller_empty 1000)) = (15, 0) \<and>
   (startIndex (scroller_empty 1000), endIndex (scroller_empty 1000)) \<noteq> (0, 0)"
  by (simp add: scroller_defs)

text \<open>
  C8. In one pass of \<open>renderVisibleItems\<close> over a set of materialized indices and a
  newly computed range, the indices released are those materialized before and outside
  the range, the indices rendered are those of the range that were not materialized
  (all of them when the rendering function throws for none, as with the board's
  \<open>renderItem\<close>; otherwise those it succeeds on), the two sets are disjoint, and an
  index of the overlap is in neither: it stays materialized and its handle stays in
  the list.
\<close>

theorem diff_disjoint_overlap_untouched:
  "set (ps_released (renderVisibleItems s)) =
     set (vs_visibleItems s) - {startIndex s..<endIndex s} \<and>
   set (ps_acquired (renderVisibleItems s)) =
     {i \<in> {startIndex s..<endIndex s} - set (vs_visibleItems s). renders s i} \<and>
   ((\<forall>i\<in>{startIndex s..<endIndex s}. renders s i) \<longrightarrow>
      set (ps_acquired (renderVisibleItems s)) =
        {startIndex s..<endIndex s} - set (vs_visibleItems s)) \<and>
   (vs_renderItemFn s = renderItem \<longrightarrow>
      set (ps_acquired (renderVisibleItems s)) =
        {startIndex s..<endIndex s} - set (vs_visibleItems s)) \<and>
   set (ps_released (renderVisibleItems s)) \<inter> set (ps_acquired (renderVisibleItems s)) = {} \<and>
   (set (vs_visibleItems s) \<inter> {startIndex s..<endIndex s}) \<inter>
     (set (ps_released (renderVisibleItems s)) \<union> set (ps_acquired (renderVisibleItems s))) = {} \<and>
   set (vs_visibleItems s) \<inter> {startIndex s..<endIndex s}
     \<subseteq> set (ps_visible (renderVisibleItems s)) \<and>
   (\<forall>h\<in>set (vs_list s). hd_index h \<in> {startIndex s..<endIndex s} \<longrightarrow>
      h\<lparr>hd_translateY := of_int (hd_index h) * vs_ITEM_HEIGHT s\<rparr>
        \<in> set (ps_list (renderVisibleItems s)))"
proof -
  have R: "set (ps_released (renderVisibleItems s)) =
     set (vs_visibleItems s) - {startIndex s..<endIndex s}"
    unfolding renderVisibleItems_released by auto
  have A: "set (ps_acquired (renderVisibleItems s)) =
     {i \<in> {startIndex s..<endIndex s} - set (vs_visibleItems s). renders s i}"
    by (rule renderVisibleItems_acquired)
  have V: "set (vs_visibleItems s) \<inter> {startIndex s..<endIndex s}
     \<subseteq> set (ps_visible (renderVisibleItems s))"
    unfolding renderVisibleItems_visible by blast
  have H: "\<forall>h\<in>set (vs_list s). hd_index h \<in> {startIndex s..<endIndex s} \<longrightarrow>
      h\<lparr>hd_translateY := of_int (hd_index h) * vs_ITEM_HEIGHT s\<rparr>
        \<in> set (ps_list (renderVisibleItems s))"
    using renderVisibleItems_keeps by simp
  have A': "set (ps_acquired (renderVisibleItems s)) =
        {startIndex s..<endIndex s} - set (vs_visibleItems s)"
    if "\<forall>i\<in>{startIndex s..<endIndex s}. renders s i"
    unfolding A using that by blast
  have D: "set (ps_released (renderVisibleItems s)) \<inter> set (ps_acquired (renderVisibleItems s)) = {}"
    unfolding R A by blast
  have O: "(set (vs_visibleItems s) \<inter> {startIndex s..<endIndex s}) \<inter>
     (set (ps_released (renderVisibleItems s)) \<union> set (ps_acquired (renderVisibleItems s))) = {}"
    unfolding R A by blast
  have B: "set (ps_acquired (renderVisibleItems s)) =
        {startIndex s..<endIndex s} - set (vs_visibleItems s)"
    if "vs_renderItemFn s = renderItem"
    using A' renderItem_renders[OF that] by blast
  from R A A' B D O V H show ?thesis by blast
qed

theorem diff_disjoint_overlap_untouched_witness:
  "set (ps_released (renderVisibleItems (scroller_long 500 [1..12]))) = {1, 2, 3, 4} \<and>
   set (ps_acquired (renderVisibleItems (scroller_long 500 [1..12]))) = {13, 14, 15, 16} \<and>
   {5, 6, 7, 8, 9, 10, 11, 12} \<subseteq> set (ps_visible (renderVisibleItems (scroller_long 500 [1..12])))"
proof -
  let ?s = "scroller_long 500 [1..12]"
  have st: "startIndex ?s = 5" and en: "endIndex ?s = 17"
    by (simp_all add: scroller_long_def scroller_defs)
  have prev: "set (vs_visibleItems ?s) = {1..12}"
    by (simp add: scroller_long_def scroller_defs)
  have "vs_renderItemFn ?s = renderItem" by (simp add: scroller_long_def scroller_defs)
  then have ok: "\<forall>i\<in>{startIndex ?s..<endIndex ?s}. renders ?s i"
    using renderItem_renders by blast
  have 1: "{1..12} - {5..<17} = {1, 2, 3, 4::int}" by auto
  have 2: "{5..<17} - {1..12} = {13, 14, 15, 16::int}" by auto
  have 3: "{1..12} \<inter> {5..<17} = {5, 6, 7, 8, 9, 10, 11, 12::int}" by auto
  from diff_disjoint_overlap_untouched[of ?s] ok
  have "set (ps_released (renderVisibleItems ?s)) = set (vs_visibleItems ?s) - {startIndex ?s..<endIndex ?s}"
    "set (ps_acquired (renderVisibleItems ?s)) = {startIndex ?s..<endIndex ?s} - set (vs_visibleItems ?s)"
    "set (vs_visibleItems ?s) \<inter> {startIndex ?s..<endIndex ?s} \<subseteq> set (ps_visible (renderVisibleItems ?s))"
    by blast+
  then show ?thesis unfolding st en prev 1 2 3 by blast
qed

section \<open>The drag session\<close>

text \<open>
  C2, as amended. During an ACTIVE drag session and at drop the drag manager computes
  the insertion index as \<open>floor((pointerY - targetListTopY) / itemHeight)\<close>, the
  difference and the quotient being the rounded ones of JavaScript numbers, and does
  not clamp it. During the session the placeholder goes before the rendered item at
  that index among the items of the target list without the dragged one (it is appended
  when there is none at the index). At drop the commit inserts at the index clamped to
  \<open>[0, n]\<close>, where \<open>n\<close> is the length of the target column after the dragged item
  has been removed from its origin column, so the dragged item is excluded also when
  the target list is the origin list. When the item height is a whole number \<open>h\<close> of
  pixels, at most \<open>2^20\<close>, and the computed difference lies in the slot
  \<open>[k * h, (k + 1) * h)\<close> of a row \<open>k\<close> from 0 and below \<open>2^32\<close>, the insertion index
  is \<open>k\<close>: hovering in the slot of index 3 yields insertion index 3, not 4.
\<close>

theorem insertion_index_floor_clamped_at_commit:
  assumes active: "dragActive (w_drag w)" and dragged: "draggedItem (w_drag w) = Some dragged"
  shows "placeholderIndex (updatePlaceholderPosition e dropList (w_drag w)) =
           \<lfloor>double_divide (double_minus (ev_clientY e) (dl_top dropList)) (itemHeight (w_drag w))\<rfloor> \<and>
         (\<lfloor>double_divide (double_minus (ev_clientY e) (dl_top dropList)) (itemHeight (w_drag w))\<rfloor> \<noteq> placeholderIndex (w_drag w) \<longrightarrow>
            placeholder (updatePlaceholderPosition e dropList (w_drag w)) =
              Some \<lparr>ph_display = True, ph_parent = Some (dl_node dropList),
                    ph_before = js_nth (filter (\<lambda>n. n \<noteq> el_node dragged) (dl_items dropList))
                                  \<lfloor>double_divide (double_minus (ev_clientY e) (dl_top dropList)) (itemHeight (w_drag w))\<rfloor>\<rparr>) \<and>
         (ev_dropList e = Some dropList \<and>
          kb_ITEM_HEIGHT (w_board w) = itemHeight (w_drag w) \<and>
          distinct (map item_id (all_items (kb_data (w_board w)))) \<and>
          el_sourceColumnId dragged = Some src \<and>
          find_column (kb_data (w_board w)) src = Some scol \<and>
          0 \<le> el_itemIndex dragged \<and> el_itemIndex dragged < int (length (col_items scol)) \<and>
          item_id (col_items scol ! nat (el_itemIndex dragged)) = dd_id (el_dragData dragged) \<and>
          find_column (kb_data (w_board w)) (dl_columnId dropList) = Some tcol \<longrightarrow>
            (\<exists>tc. find_column (removeItem (kb_data (w_board w)) src (el_itemIndex dragged))
                     (dl_columnId dropList) = Some tc \<and>
               kb_data (w_board (pointerUpHandler e w)) =
                 update_column (dl_columnId dropList)
                   (splice_insert
                      (nat (min (max 0 \<lfloor>double_divide (double_minus (ev_clientY e) (dl_top dropList)) (itemHeight (w_drag w))\<rfloor>)
                                (int (length (col_items tc)))))
                      (col_items scol ! nat (el_itemIndex dragged)))
                   (removeItem (kb_data (w_board w)) src (el_itemIndex dragged)))) \<and>
         (itemHeight (w_drag w) = of_int h \<and> 1 \<le> h \<and> h \<le> 2 ^ 20 \<and> 0 \<le> k \<and> k < 2 ^ 32 \<and>
          of_int h * of_int k \<le> double_minus (ev_clientY e) (dl_top dropList) \<and>
          double_minus (ev_clientY e) (dl_top dropList) < of_int h * (of_int k + 1) \<longrightarrow>
            \<lfloor>double_divide (double_minus (ev_clientY e) (dl_top dropList)) (itemHeight (w_drag w))\<rfloor> = k)"
proof -
  have A: "placeholderIndex (updatePlaceholderPosition e dropList (w_drag w)) =
           \<lfloor>double_divide (double_minus (ev_clientY e) (dl_top dropList)) (itemHeight (w_drag w))\<rfloor>"
    by (rule updatePlaceholderPosition_index[OF active dragged])
  have B: "placeholder (updatePlaceholderPosition e dropList (w_drag w)) =
              Some \<lparr>ph_display = True, ph_parent = Some (dl_node dropList),
                    ph_before = js_nth (filter (\<lambda>n. n \<noteq> el_node dragged) (dl_items dropList))
                                  \<lfloor>double_divide (double_minus (ev_clientY e) (dl_top dropList)) (itemHeight (w_drag w))\<rfloor>\<rparr>"
    if "\<lfloor>double_divide (double_minus (ev_clientY e) (dl_top dropList)) (itemHeight (w_drag w))\<rfloor> \<noteq> placeholderIndex (w_drag w)"
    by (rule updatePlaceholderPosition_before[OF active dragged that])
  have C: "\<exists>tc. find_column (removeItem (kb_data (w_board w)) src (el_itemIndex dragged))
                     (dl_columnId dropList) = Some tc \<and>
               kb_data (w_board (pointerUpHandler e w)) =
                 update_column (dl_columnId dropList)
                   (splice_insert
                      (nat (min (max 0 \<lfloor>double_divide (double_minus (ev_clientY e) (dl_top dropList)) (itemHeight (w_drag w))\<rfloor>)
                                (int (length (col_items tc)))))
                      (col_items scol ! nat (el_itemIndex dragged)))
                   (removeItem (kb_data (w_board w)) src (el_itemIndex dragged))"
    if "ev_dropList e = Some dropList \<and>
          kb_ITEM_HEIGHT (w_board w) = itemHeight (w_drag w) \<and>
          distinct (map item_id (all_items (kb_data (w_board w)))) \<and>
          el_sourceColumnId dragged = Some src \<and>
          find_column (kb_data (w_board w)) src = Some scol \<and>
          0 \<le> el_itemIndex dragged \<and> el_itemIndex dragged < int (length (col_items scol)) \<and>
          item_id (col_items scol ! nat (el_itemIndex dragged)) = dd_id (el_dragData dragged) \<and>
          find_column (kb_data (w_board w)) (dl_columnId dropList) = Some tcol"
    using that by (intro pointerUpHandler_commit[OF active dragged, where tcol = tcol]) simp_all
  have D: "\<lfloor>double_divide (double_minus (ev_clientY e) (dl_top dropList)) (itemHeight (w_drag w))\<rfloor> = k"
    if "itemHeight (w_drag w) = of_int h \<and> 1 \<le> h \<and> h \<le> 2 ^ 20 \<and> 0 \<le> k \<and> k < 2 ^ 32 \<and>
          of_int h * of_int k \<le> double_minus (ev_clientY e) (dl_top dropList) \<and>
          double_minus (ev_clientY e) (dl_top dropList) < of_int h * (of_int k + 1)"
    using that row_index[of h k "ev_clientY e - dl_top dropList"]
    by (simp add: double_minus_def double_divide_def)
  from A B C D show ?thesis by blast
qed

theorem insertion_index_floor_clamped_at_commit_witness:
  "placeholderIndex (updatePlaceholderPosition (pointer_at 175 elem_D (Some (list_todo 0))) (list_todo 0)
      (w_drag (run (new_world board_ABCD 50) [PointerDown (pointer_at 175 elem_D (Some (list_todo 0)))]))) = 3 \<and>
   placeholder (updatePlaceholderPosition (pointer_at 175 elem_D (Some (list_todo 0))) (list_todo 0)
      (w_drag (run (new_world board_ABCD 50) [PointerDown (pointer_at 175 elem_D (Some (list_todo 0)))]))) =
     Some \<lparr>ph_display = True, ph_parent = Some 100, ph_before = None\<rparr> \<and>
   kb_data (w_board (pointerUpHandler (pointer_at 175 elem_D (Some (list_todo 0)))
      (run (new_world board_ABCD 50) [PointerDown (pointer_at 175 elem_D (Some (list_todo 0)))]))) =
     board_ABCD \<and>
   50 * 3 \<le> double_minus 175 0 \<and> double_minus 175 0 < 50 * (3 + 1) \<and>
   \<lfloor>double_divide (double_minus 175 0) 50\<rfloor> = 3"
proof -
  let ?e = "pointer_at 175 elem_D (Some (list_todo 0))"
  let ?w = "run (new_world board_ABCD 50) [PointerDown ?e]"
  let ?dragged = "handleDragStart elem_D (list_todo 0)"
  let ?scol = "\<lparr>col_id = 0, col_title = ''To Do'', col_items = listABCD\<rparr>"
  have active: "dragActive (w_drag ?w)" by (simp add: drag_defs elem_D_def)
  have dragged: "draggedItem (w_drag ?w) = Some ?dragged" by (simp add: drag_defs elem_D_def)
  have h: "itemHeight (w_drag ?w) = 50" by (simp add: drag_defs elem_D_def)
  have pi: "placeholderIndex (w_drag ?w) = - 1" by (simp add: drag_defs elem_D_def)
  have bd: "kb_data (w_board ?w) = board_ABCD" "kb_ITEM_HEIGHT (w_board ?w) = 50"
    by (simp_all add: drag_defs elem_D_def)
  have ev: "ev_clientY ?e = 175" "ev_dropList ?e = Some (list_todo 0)"
    by (simp_all add: pointer_at_def)
  have dl: "dl_top (list_todo 0) = 0" "dl_columnId (list_todo 0) = 0" "dl_node (list_todo 0) = 100"
    "dl_items (list_todo 0) = [1, 2, 3, 4]"
    by (simp_all add: list_todo_def)
  have el: "el_sourceColumnId ?dragged = Some 0" "el_itemIndex ?dragged = 3"
    "dd_id (el_dragData ?dragged) = 4" "el_node ?dragged = 4"
    by (simp_all add: handleDragStart_def elem_D_def list_todo_def)
  have fc: "find_column board_ABCD 0 = Some ?scol"
    by (simp add: board_defs)
  have ids: "distinct (map item_id (all_items board_ABCD))" by (simp add: board_defs)
  have fl: "\<lfloor>double_divide 175 50\<rfloor> = 3" by (simp add: double_values)
  note T = insertion_index_floor_clamped_at_commit[OF active dragged,
      of ?e "list_todo 0" 0 ?scol ?scol 50 3, unfolded h pi bd ev dl el double_minus_175 fl]
  have a: "placeholderIndex (updatePlaceholderPosition ?e (list_todo 0) (w_drag ?w)) = 3"
    using T by simp
  have b: "placeholder (updatePlaceholderPosition ?e (list_todo 0) (w_drag ?w)) =
     Some \<lparr>ph_display = True, ph_parent = Some 100, ph_before = None\<rparr>"
    using T by (simp add: js_nth_def)
  have "\<exists>tc. find_column (removeItem board_ABCD 0 3) 0 = Some tc \<and>
          kb_data (w_board (pointerUpHandler ?e ?w)) =
            update_column 0 (splice_insert (nat (min (max 0 3) (int (length (col_items tc)))))
                               (col_items ?scol ! nat 3))
              (removeItem board_ABCD 0 3)"
    using T fc ids by (simp add: listABCD_def)
  then have c: "kb_data (w_board (pointerUpHandler ?e ?w)) = board_ABCD"
    by (auto simp: board_defs)
  have d: "50 * 3 \<le> double_minus 175 0 \<and> double_minus 175 0 < 50 * (3 + 1) \<and>
           \<lfloor>double_divide (double_minus 175 0) 50\<rfloor> = 3"
    by (simp add: double_values)
  from a b c d show ?thesis by blast
qed

text \<open>
  The claim C2 as stated fails: over the empty list, 75 pixels below its top edge at
  item height 50, the insertion index held during the session is 1, outside \<open>[0, 0]\<close>,
  and 1 is the target index reported when the item is dropped there.
\<close>

theorem insertion_index_unclamped_counterexample:
  "dragActive (w_drag (run (new_world board_two 50)
      [PointerDown (pointer_at 60 elem_B (Some (list_todo 0))),
       PointerMove (pointer_at 75 elem_B (Some list_done)), AnimationFrame])) \<and>
   currentDropTarget (w_drag (run (new_world board_two 50)
      [PointerDown (pointer_at 60 elem_B (Some (list_todo 0))),
       PointerMove (pointer_at 75 elem_B (Some list_done)), AnimationFrame])) = Element list_done \<and>
   map_option (\<lambda>c. int (length (col_items c))) (find_column (kb_data (w_board (run (new_world board_two 50)
      [PointerDown (pointer_at 60 elem_B (Some (list_todo 0))),
       PointerMove (pointer_at 75 elem_B (Some list_done)), AnimationFrame]))) 1) = Some 0 \<and>
   placeholderIndex (w_drag (run (new_world board_two 50)
      [PointerDown (pointer_at 60 elem_B (Some (list_todo 0))),
       PointerMove (pointer_at 75 elem_B (Some list_done)), AnimationFrame])) = 1 \<and>
   \<not> placeholderIndex (w_drag (run (new_world board_two 50)
      [PointerDown (pointer_at 60 elem_B (Some (list_todo 0))),
       PointerMove (pointer_at 75 elem_B (Some list_done)), AnimationFrame])) \<le> 0 \<and>
   map (\<lambda>out. case out of ItemMoved m \<Rightarrow> Some (mv_targetIndex m) | CouldNotFindItem \<Rightarrow> None)
     (w_outcomes (run (new_world board_two 50)
      [PointerDown (pointer_at 60 elem_B (Some (list_todo 0))),
       PointerUp (pointer_at 75 elem_B (Some list_done))])) = [Some 1]"
  by (simp add: drag_defs board_defs double_values)

text \<open>
  C5. A pointer release over no droppable list leaves the board as it was when the drag
  started, and the processing of pointer moves (the handler and its animation-frame
  callback) never changes the board: after any sequence of pointer-down, pointer-move,
  animation-frame and pointer-up events in which no release is over a droppable list,
  the board is the one before the sequence.
\<close>

theorem cancelled_drag_leaves_board:
  "(list_all no_drop_target evs \<longrightarrow> w_board (run w evs) = w_board w) \<and>
   w_board (pointerMoveHandler e w) = w_board w \<and>
   w_board (pointerMoveFrame e w) = w_board w \<and>
   (ev_dropList e = None \<longrightarrow> w_board (pointerUpHandler e w) = w_board w)"
  using run_board pointerMoveHandler_board pointerMoveFrame_board pointerUpHandler_no_target
  by blast


theorem cancelled_drag_leaves_board_witness:
  "dragActive (w_drag (run (new_world board_ABCD 50)
      [PointerDown (pointer_at 60 elem_B (Some (list_todo 0))),
       PointerMove (pointer_at 500 elem_B None), AnimationFrame])) \<and>
   w_board (run (new_world board_ABCD 50)
      [PointerDown (pointer_at 60 elem_B (Some (list_todo 0))),
       PointerMove (pointer_at 500 elem_B None), AnimationFrame,
       PointerUp (pointer_at 500 elem_B None)]) = w_board (new_world board_ABCD 50)"
proof -
  have "list_all no_drop_target
      [PointerDown (pointer_at 60 elem_B (Some (list_todo 0))),
       PointerMove (pointer_at 500 elem_B None), AnimationFrame,
       PointerUp (pointer_at 500 elem_B None)]"
    by (simp add: pointer_at_def)
  with cancelled_drag_leaves_board[of _ "new_world board_ABCD 50"]
  have "w_board (run (new_world board_ABCD 50)
      [PointerDown (pointer_at 60 elem_B (Some (list_todo 0))),
       PointerMove (pointer_at 500 elem_B None), AnimationFrame,
       PointerUp (pointer_at 500 elem_B None)]) = w_board (new_world board_ABCD 50)"
    by blast
  with active_mid show ?thesis by blast
qed

text \<open>
  C7, as amended. The drag manager holds one session (one dragged item, one source list,
  one pair of offsets), so at most one is ACTIVE at any time. A pointer-down with a
  button other than the primary one is ignored and leaves the session unchanged. A
  primary-button pointer-down is not ignored while a session is ACTIVE: whatever the
  state, it makes the pressed item the dragged item, its list the source list, and
  takes the offsets from this press.
\<close>

theorem pointerDown_restarts_session:
  "(ev_button e \<noteq> 0 \<longrightarrow> pointerDownHandler e dm = dm) \<and>
   (ev_button e = 0 \<longrightarrow>
      dragActive (pointerDownHandler e dm) \<and>
      draggedItem (pointerDownHandler e dm) =
        Some (case el_closestList (ev_currentTarget e) of
                None \<Rightarrow> ev_currentTarget e
              | Some sl \<Rightarrow> handleDragStart (ev_currentTarget e) sl) \<and>
      sourceList (pointerDownHandler e dm) = el_closestList (ev_currentTarget e) \<and>
      (el_closestList (ev_currentTarget e) \<noteq> None \<longrightarrow>
         offsetX (pointerDownHandler e dm) = ev_clientX e - el_left (ev_currentTarget e) \<and>
         offsetY (pointerDownHandler e dm) = ev_clientY e - el_top (ev_currentTarget e)))"
  by (auto simp: pointerDownHandler_def Let_def updateClonePosition_def createPlaceholder_def
      createDragClone_def split: option.splits)

theorem pointerDown_restarts_session_witness:
  "pointerDownHandler ((pointer_at 120 elem_C (Some (list_todo 0)))\<lparr>ev_button := 2\<rparr>)
     (pointerDownHandler (pointer_at 60 elem_B (Some (list_todo 0))) (new_DragManager 50)) =
   pointerDownHandler (pointer_at 60 elem_B (Some (list_todo 0))) (new_DragManager 50) \<and>
   dragActive (pointerDownHandler (pointer_at 120 elem_C (Some (list_todo 0)))
     (pointerDownHandler (pointer_at 60 elem_B (Some (list_todo 0))) (new_DragManager 50))) \<and>
   draggedItem (pointerDownHandler (pointer_at 120 elem_C (Some (list_todo 0)))
     (pointerDownHandler (pointer_at 60 elem_B (Some (list_todo 0))) (new_DragManager 50))) =
     Some (handleDragStart elem_C (list_todo 0)) \<and>
   offsetY (pointerDownHandler (pointer_at 120 elem_C (Some (list_todo 0)))
     (pointerDownHandler (pointer_at 60 elem_B (Some (list_todo 0))) (new_DragManager 50))) = 20"
proof -
  let ?dm = "pointerDownHandler (pointer_at 60 elem_B (Some (list_todo 0))) (new_DragManager 50)"
  let ?e = "pointer_at 120 elem_C (Some (list_todo 0))"
  have b2: "ev_button (?e\<lparr>ev_button := 2\<rparr>) \<noteq> 0" by simp
  have b0: "ev_button ?e = 0" by (simp add: pointer_at_def)
  have cl: "el_closestList (ev_currentTarget ?e) = Some (list_todo 0)"
    by (simp add: pointer_at_def elem_C_def)
  have 1: "pointerDownHandler (?e\<lparr>ev_button := 2\<rparr>) ?dm = ?dm"
    using pointerDown_restarts_session[of "?e\<lparr>ev_button := 2\<rparr>" ?dm] b2 by blast
  have 2: "dragActive (pointerDownHandler ?e ?dm)"
    and 3: "draggedItem (pointerDownHandler ?e ?dm) =
        Some (case el_closestList (ev_currentTarget ?e) of
                None \<Rightarrow> ev_currentTarget ?e
              | Some sl \<Rightarrow> handleDragStart (ev_currentTarget ?e) sl)"
    and 4: "offsetY (pointerDownHandler ?e ?dm) = ev_clientY ?e - el_top (ev_currentTarget ?e)"
    using pointerDown_restarts_session[of ?e ?dm] b0 cl by simp_all
  have d3: "draggedItem (pointerDownHandler ?e ?dm) = Some (handleDragStart elem_C (list_todo 0))"
    using 3 cl by (simp add: pointer_at_def)
  have d4: "offsetY (pointerDownHandler ?e ?dm) = 20"
    using 4 by (simp add: pointer_at_def elem_C_def)
  from 1 2 d3 d4 show ?thesis by blast
qed

text \<open>
  The claim C7 as stated fails: a primary-button press on "C" while "B" is being
  dragged replaces the dragged item and the offsets of the session.
\<close>

theorem pointerDown_while_active_counterexample:
  "dragActive (pointerDownHandler (pointer_at 60 elem_B (Some (list_todo 0))) (new_DragManager 50)) \<and>
   map_option el_node (draggedItem
     (pointerDownHandler (pointer_at 60 elem_B (Some (list_todo 0))) (new_DragManager 50))) = Some 2 \<and>
   map_option el_node (draggedItem
     (pointerDownHandler (pointer_at 120 elem_C (Some (list_todo 0)))
       (pointerDownHandler (pointer_at 60 elem_B (Some (list_todo 0))) (new_DragManager 50)))) = Some 3 \<and>
   draggedItem
     (pointerDownHandler (pointer_at 120 elem_C (Some (list_todo 0)))
       (pointerDownHandler (pointer_at 60 elem_B (Some (list_todo 0))) (new_DragManager 50))) \<noteq>
   draggedItem (pointerDownHandler (pointer_at 60 elem_B (Some (list_todo 0))) (new_DragManager 50)) \<and>
   offsetY
     (pointerDownHandler (pointer_at 120 elem_C (Some (list_todo 0)))
       (pointerDownHandler (pointer_at 60 elem_B (Some (list_todo 0))) (new_DragManager 50))) \<noteq>
   offsetY (pointerDownHandler (pointer_at 60 elem_B (Some (list_todo 0))) (new_DragManager 50))"
  by (simp add: drag_defs)


text \<open>
  C9. For the single list \<open>["A","B","C","D"]\<close> at item height 50, pressing on "B"
  (origin index 1) and releasing over the same list at a relative height within row 2,
  that is with the difference \<open>clientY - rect.top\<close> the program computes in
  \<open>[100, 150)\<close>, yields the order \<open>["A","C","B","D"]\<close>.
\<close>

theorem scenario_B_to_row_2:
  assumes "100 \<le> double_minus y t" "double_minus y t < 150"
  shows "kb_data (w_board (run (new_world board_ABCD 50)
           [PointerDown (pointer_at 60 elem_B (Some (list_todo 0))),
            PointerUp (pointer_at y elem_B (Some (list_todo t)))])) =
         [\<lparr>col_id = 0, col_title = ''To Do'',
           col_items = [\<lparr>item_id = 1, item_text = ''A''\<rparr>, \<lparr>item_id = 3, item_text = ''C''\<rparr>,
                        \<lparr>item_id = 2, item_text = ''B''\<rparr>, \<lparr>item_id = 4, item_text = ''D''\<rparr>]\<rparr>]"
proof -
  have f: "\<lfloor>double_divide (double_minus y t) 50\<rfloor> = 2"
    using row_index[of 50 2 "y - t"] assms by (simp add: double_minus_def double_divide_def)
  show ?thesis
    by (simp add: drag_defs f handleDrop_def findItemById_def find_column_def removeItem_def
        addItem_def splice_remove_def splice_insert_def board_ABCD_def listABCD_def)
qed

theorem scenario_B_to_row_2_witness:
  "kb_data (w_board (run (new_world board_ABCD 50)
           [PointerDown (pointer_at 60 elem_B (Some (list_todo 0))),
            PointerUp (pointer_at 125 elem_B (Some (list_todo 0)))])) =
         [\<lparr>col_id = 0, col_title = ''To Do'',
           col_items = [\<lparr>item_id = 1, item_text = ''A''\<rparr>, \<lparr>item_id = 3, item_text = ''C''\<rparr>,
                        \<lparr>item_id = 2, item_text = ''B''\<rparr>, \<lparr>item_id = 4, item_text = ''D''\<rparr>]\<rparr>]"
proof -
  have 1: "100 \<le> double_minus 125 0" and 2: "double_minus 125 0 < 150"
    by (simp_all add: double_values)
  show ?thesis by (rule scenario_B_to_row_2[OF 1 2])
qed

text \<open>
  A release at \<open>clientY = 150.1\<close> over the list with \<open>rect.top = 0.1\<close> is outside this
  row: the computed difference is 150, the row is 3, and "B" goes behind "D".
\<close>

lemma scenario_B_rounded_to_row_3:
  "kb_data (w_board (run (new_world board_ABCD 50)
           [PointerDown (pointer_at 60 elem_B (Some (list_todo 0))),
            PointerUp (pointer_at (double_round (1501 / 10)) elem_B
              (Some (list_todo (double_round (1 / 10)))))])) =
         [\<lparr>col_id = 0, col_title = ''To Do'',
           col_items = [\<lparr>item_id = 1, item_text = ''A''\<rparr>, \<lparr>item_id = 3, item_text = ''C''\<rparr>,
                        \<lparr>item_id = 4, item_text = ''D''\<rparr>, \<lparr>item_id = 2, item_text = ''B''\<rparr>]\<rparr>]"
proof -
  have f: "\<lfloor>double_divide (double_minus (double_round (1501 / 10)) (double_round (1 / 10))) 50\<rfloor> = 3"
    using double_minus_rounds_up by blast
  show ?thesis
    by (simp add: drag_defs f handleDrop_def findItemById_def find_column_def removeItem_def
        addItem_def splice_remove_def splice_insert_def board_ABCD_def listABCD_def)
qed


section \<open>The commit of a drop\<close>

text \<open>
  C1. After a drag commit (\<open>handleDrop\<close> calling \<open>removeItem\<close> then \<open>addItem\<close>) the
  board holds the same items as before: every item id appears exactly once across all
  columns and the number of items summed over the columns is unchanged; a move to
  another column takes the item out of the origin column and puts it into the target
  column. This holds for every board on which each id occurs once, every origin and
  target column of the board, every target index, and every origin index that the
  commit receives from the dragged element, namely the index at which the board holds
  the dragged id: the element was rendered from the board with this index, and the
  board does not change while the session is open (\<open>run_keeps_items\<close> shows that
  these conditions hold in every state reached from a board with unique ids by events
  the document answers consistently, and that every such state holds exactly the items
  of the initial board).
\<close>

theorem handleDrop_relocates_item:
  assumes ids: "distinct (map item_id (all_items (kb_data kb)))"
      and src: "el_sourceColumnId (drop_item d) = Some src"
      and scol: "find_column (kb_data kb) src = Some scol"
      and idx: "0 \<le> el_itemIndex (drop_item d)"
               "el_itemIndex (drop_item d) < int (length (col_items scol))"
      and sync: "item_id (col_items scol ! nat (el_itemIndex (drop_item d))) = dd_id (drop_data d)"
      and tcol: "find_column (kb_data kb) (dl_columnId (drop_targetList d)) = Some tcol"
  shows "mset (all_items (kb_data (fst (handleDrop kb d)))) = mset (all_items (kb_data kb)) \<and>
         distinct (map item_id (all_items (kb_data (fst (handleDrop kb d))))) \<and>
         length (all_items (kb_data (fst (handleDrop kb d)))) = length (all_items (kb_data kb)) \<and>
         count_list (map item_id (all_items (kb_data (fst (handleDrop kb d))))) (dd_id (drop_data d)) = 1 \<and>
         (src \<noteq> dl_columnId (drop_targetList d) \<longrightarrow>
            (\<exists>scol' tcol'.
               find_column (kb_data (fst (handleDrop kb d))) src = Some scol' \<and>
               find_column (kb_data (fst (handleDrop kb d))) (dl_columnId (drop_targetList d)) = Some tcol' \<and>
               dd_id (drop_data d) \<notin> item_id ` set (col_items scol') \<and>
               dd_id (drop_data d) \<in> item_id ` set (col_items tcol') \<and>
               length (col_items scol') + 1 = length (col_items scol) \<and>
               length (col_items tcol') = length (col_items tcol) + 1))"
proof -
  let ?cols = "kb_data kb"
  let ?i = "nat (el_itemIndex (drop_item d))"
  let ?it = "col_items scol ! ?i"
  let ?tgt = "dl_columnId (drop_targetList d)"
  let ?cols1 = "update_column src (splice_remove ?i) ?cols"
  let ?post = "kb_data (fst (handleDrop kb d))"
  have i: "?i < length (col_items scol)" using idx by simp
  from handleDrop_commit[OF assms] obtain v where
    post: "?post = update_column ?tgt (splice_insert v ?it) ?cols1" by blast
  have M: "mset (all_items ?post) = mset (all_items ?cols)"
    by (rule handleDrop_keeps_items[OF assms])
  then have Mid: "mset (map item_id (all_items ?post)) = mset (map item_id (all_items ?cols))"
    by (metis mset_map)
  have D: "distinct (map item_id (all_items ?post))"
    using Mid ids by (metis mset_eq_imp_distinct_iff)
  have L: "length (all_items ?post) = length (all_items ?cols)"
    using M by (metis size_mset)
  have "?it \<in> set (col_items scol)" using i by simp
  moreover have "set (col_items scol) \<subseteq> set (all_items ?cols)"
    using find_column_split[OF scol] by (auto simp: all_items_def)
  ultimately have "?it \<in># mset (all_items ?cols)" by auto
  then have "?it \<in># mset (all_items ?post)" using M by simp
  then have mem: "dd_id (drop_data d) \<in> set (map item_id (all_items ?post))"
    using sync by force
  have C: "count_list (map item_id (all_items ?post)) (dd_id (drop_data d)) = 1"
    using D mem by (metis count_mset distinct_count_atmost_1)
  have X: "\<exists>scol' tcol'.
               find_column ?post src = Some scol' \<and>
               find_column ?post ?tgt = Some tcol' \<and>
               dd_id (drop_data d) \<notin> item_id ` set (col_items scol') \<and>
               dd_id (drop_data d) \<in> item_id ` set (col_items tcol') \<and>
               length (col_items scol') + 1 = length (col_items scol) \<and>
               length (col_items tcol') = length (col_items tcol) + 1" if ne: "src \<noteq> ?tgt"
  proof -
    have s': "find_column ?post src = Some (scol\<lparr>col_items := splice_remove ?i (col_items scol)\<rparr>)"
      unfolding post using ne scol by (simp add: find_column_update)
    have t': "find_column ?post ?tgt = Some (tcol\<lparr>col_items := splice_insert v ?it (col_items tcol)\<rparr>)"
      unfolding post using ne tcol by (simp add: find_column_update)
    have g: "dd_id (drop_data d) \<notin> item_id ` set (splice_remove ?i (col_items scol))"
      using removed_id_gone[OF distinct_column_ids[OF ids scol] i] sync by simp
    have h: "dd_id (drop_data d) \<in> item_id ` set (splice_insert v ?it (col_items tcol))"
      using set_splice_insert[of ?it v "col_items tcol"] sync by force
    show ?thesis
      using s' t' g h length_splice_remove[OF i] length_splice_insert[of v ?it "col_items tcol"]
      by simp
  qed
  show ?thesis using M D L C X by blast
qed

theorem handleDrop_relocates_item_witness:
  "mset (all_items (kb_data (fst (handleDrop kanban_two drop_B_on_done)))) =
     mset (all_items (kb_data kanban_two)) \<and>
   distinct (map item_id (all_items (kb_data (fst (handleDrop kanban_two drop_B_on_done))))) \<and>
   length (all_items (kb_data (fst (handleDrop kanban_two drop_B_on_done)))) =
     length (all_items (kb_data kanban_two)) \<and>
   count_list (map item_id (all_items (kb_data (fst (handleDrop kanban_two drop_B_on_done)))))
     (dd_id (drop_data drop_B_on_done)) = 1 \<and>
   (\<exists>scol' tcol'.
      find_column (kb_data (fst (handleDrop kanban_two drop_B_on_done))) 0 = Some scol' \<and>
      find_column (kb_data (fst (handleDrop kanban_two drop_B_on_done)))
        (dl_columnId (drop_targetList drop_B_on_done)) = Some tcol' \<and>
      dd_id (drop_data drop_B_on_done) \<notin> item_id ` set (col_items scol') \<and>
      dd_id (drop_data drop_B_on_done) \<in> item_id ` set (col_items tcol') \<and>
      length (col_items scol') + 1 =
        length (col_items \<lparr>col_id = 0, col_title = ''To Do'', col_items = listABCD\<rparr>) \<and>
      length (col_items tcol') =
        length (col_items \<lparr>col_id = 1, col_title = ''Done'', col_items = []\<rparr>) + 1)"
proof -
  have ids: "distinct (map item_id (all_items (kb_data kanban_two)))"
    by (simp add: demo_defs)
  have src: "el_sourceColumnId (drop_item drop_B_on_done) = Some 0"
    by (simp add: demo_defs)
  have scol: "find_column (kb_data kanban_two) 0 =
      Some \<lparr>col_id = 0, col_title = ''To Do'', col_items = listABCD\<rparr>"
    by (simp add: demo_defs)
  have idx: "0 \<le> el_itemIndex (drop_item drop_B_on_done)"
    "el_itemIndex (drop_item drop_B_on_done) <
       int (length (col_items \<lparr>col_id = 0, col_title = ''To Do'', col_items = listABCD\<rparr>))"
    by (simp_all add: demo_defs)
  have sync: "item_id (col_items \<lparr>col_id = 0, col_title = ''To Do'', col_items = listABCD\<rparr> !
      nat (el_itemIndex (drop_item drop_B_on_done))) = dd_id (drop_data drop_B_on_done)"
    by (simp add: demo_defs)
  have tcol: "find_column (kb_data kanban_two) (dl_columnId (drop_targetList drop_B_on_done)) =
      Some \<lparr>col_id = 1, col_title = ''Done'', col_items = []\<rparr>"
    by (simp add: demo_defs)
  have ne: "(0::int) \<noteq> dl_columnId (drop_targetList drop_B_on_done)"
    by (simp add: demo_defs)
  from handleDrop_relocates_item[OF ids src scol idx sync tcol] ne
  show ?thesis by blast
qed

text \<open>
  Outside these conditions the commit is not a relocation. \<open>handleDrop\<close> looks the item
  up by id but removes by the index of the element, so for an element whose index no
  longer is the place of its id (here "B" with index 2, where "C" is) it removes the
  other item and inserts a copy of the one found.
\<close>

lemma handleDrop_stale_index_example:
  "map item_text (all_items (kb_data (fst (handleDrop kanban_two
     (drop_B_on_done\<lparr>drop_item := (drop_item drop_B_on_done)\<lparr>el_itemIndex := 2\<rparr>\<rparr>))))) =
   [''A'', ''B'', ''D'', ''B'']"
  by (simp add: demo_defs board_defs Let_def)

text \<open>
  C6. If at commit time the id of the dragged item is not among the items of the origin
  column, \<open>handleDrop\<close> finds that out by its lookup by id (\<open>findItemById\<close>), which comes
  before any removal by index: it returns at once, reports that the item could not be
  found, and leaves the board as it was.
\<close>

theorem handleDrop_absent_id_noop:
  assumes "el_sourceColumnId (drop_item d) = Some src"
      and "find_column (kb_data kb) src = Some scol"
      and "dd_id (drop_data d) \<notin> item_id ` set (col_items scol)"
  shows "handleDrop kb d = (kb, CouldNotFindItem)"
proof -
  have "List.find (\<lambda>it. item_id it = dd_id (drop_data d)) (col_items scol) = None"
    by (rule find_absent[OF assms(3)])
  then have "findItemById (kb_data kb) src (dd_id (drop_data d)) = None"
    using assms(2) by (simp add: findItemById_def)
  then show ?thesis
    using assms(1) by (simp add: handleDrop_def)
qed

theorem handleDrop_absent_id_noop_witness:
  "handleDrop kanban_two (drop_B_on_done\<lparr>drop_data := \<lparr>dd_id = 9, dd_index = 1, dd_text = ''B''\<rparr>\<rparr>)
     = (kanban_two, CouldNotFindItem)"
proof -
  let ?d = "drop_B_on_done\<lparr>drop_data := \<lparr>dd_id = 9, dd_index = 1, dd_text = ''B''\<rparr>\<rparr>"
  have 1: "el_sourceColumnId (drop_item ?d) = Some 0"
    by (simp add: demo_defs)
  have 2: "find_column (kb_data kanban_two) 0 =
      Some \<lparr>col_id = 0, col_title = ''To Do'', col_items = listABCD\<rparr>"
    by (simp add: demo_defs)
  have 3: "dd_id (drop_data ?d) \<notin>
      item_id ` set (col_items \<lparr>col_id = 0, col_title = ''To Do'', col_items = listABCD\<rparr>)"
    by (simp add: demo_defs)
  show ?thesis by (rule handleDrop_absent_id_noop[OF 1 2 3])
qed


text \<open>
  C10. For every column id and every integer index that is negative or at least the
  length of that column's items, and for every column id that matches no column,
  \<open>removeItem\<close> returns the board it was given: no column's items change and nothing is
  raised.
\<close>

theorem removeItem_out_of_range_noop:
  "find_column cols columnId = None \<or>
   (\<exists>column. find_column cols columnId = Some column \<and>
      (index < 0 \<or> index \<ge> int (length (col_items column))))
   \<Longrightarrow> removeItem cols columnId index = cols"
  by (auto simp: removeItem_def)


theorem removeItem_out_of_range_noop_witness:
  "removeItem board_two 0 4 = board_two \<and> removeItem board_two 0 (- 1) = board_two \<and>
   removeItem board_two 7 0 = board_two"
proof -
  have c: "find_column board_two 0 =
      Some \<lparr>col_id = 0, col_title = ''To Do'', col_items = listABCD\<rparr>"
    by (simp add: demo_defs)
  have 1: "find_column board_two 0 = None \<or>
      (\<exists>column. find_column board_two 0 = Some column \<and> (4 < 0 \<or> 4 \<ge> int (length (col_items column))))"
    using c by (simp add: listABCD_def)
  have 2: "find_column board_two 0 = None \<or>
      (\<exists>column. find_column board_two 0 = Some column \<and>
         (- 1 < (0::int) \<or> - 1 \<ge> int (length (col_items column))))"
    using c by simp
  have 3: "find_column board_two 7 = None \<or>
      (\<exists>column. find_column board_two 7 = Some column \<and> (0 < (0::int) \<or> 0 \<ge> int (length (col_items column))))"
    by (simp add: demo_defs)
  show ?thesis
    using removeItem_out_of_range_noop[OF 1] removeItem_out_of_range_noop[OF 2]
      removeItem_out_of_range_noop[OF 3] by simp
qed

end
